theory Spec2Isabelle
  imports Complex_Main "HOL-Library.Multiset"
begin

section \<open>Score submission service: rate limiter\<close>

text \<open>
  The submit-score function keeps an in-memory map from source address to the
  current window. \<open>Date.now()\<close> is an integer number of milliseconds and is passed
  in as \<open>now\<close>; the mutated \<open>Map\<close> is returned next to the verdict.
\<close>

record rl_entry =
  windowStart :: int
  rl_count :: nat

type_synonym rateLimitMap = "string \<rightharpoonup> rl_entry"

definition RATE_LIMIT_WINDOW :: int where
  "RATE_LIMIT_WINDOW = 60000"

definition RATE_LIMIT_MAX :: nat where
  "RATE_LIMIT_MAX = 5"

definition checkRateLimit :: "string \<Rightarrow> int \<Rightarrow> rateLimitMap \<Rightarrow> bool \<times> rateLimitMap" where
  "checkRateLimit ip now m =
     (case m ip of
        None \<Rightarrow> (True, m(ip \<mapsto> \<lparr>windowStart = now, rl_count = 1\<rparr>))
      | Some entry \<Rightarrow>
          if now - windowStart entry > RATE_LIMIT_WINDOW
          then (True, m(ip \<mapsto> \<lparr>windowStart = now, rl_count = 1\<rparr>))
          else if rl_count entry \<ge> RATE_LIMIT_MAX then (False, m)
          else (True, m(ip \<mapsto> entry\<lparr>rl_count := rl_count entry + 1\<rparr>)))"

section \<open>JavaScript values\<close>

text \<open>
  A request body is whatever \<open>request.json()\<close> parsed. Numbers are IEEE doubles;
  the model keeps the three special values apart and takes the finite ones as exact
  rationals, so arithmetic is exact where a double would round, and zero has no sign.
  None of the checks below is decided by a rounding step on the inputs used in the
  closed theorems (small integers).
\<close>

datatype jsnum = Fin rat | PInf | NInf | NaN

datatype jsval =
    JUndefined
  | JNull
  | JBool bool
  | JNum jsnum
  | JStr string
  | JArr "jsval list"
  | JObj "(string \<times> jsval) list"

datatype failure = TypeError | Diverges

text \<open>The binary minus, \<open>Math.abs\<close>, \<open>%\<close>, \<open>/\<close>, \<open>+\<close>, \<open>*\<close> and the comparisons on numbers.\<close>

fun js_neg :: "jsnum \<Rightarrow> jsnum" where
  "js_neg (Fin a) = Fin (- a)"
| "js_neg PInf = NInf"
| "js_neg NInf = PInf"
| "js_neg NaN = NaN"

fun js_add :: "jsnum \<Rightarrow> jsnum \<Rightarrow> jsnum" where
  "js_add NaN _ = NaN"
| "js_add _ NaN = NaN"
| "js_add (Fin a) (Fin b) = Fin (a + b)"
| "js_add PInf NInf = NaN"
| "js_add NInf PInf = NaN"
| "js_add PInf _ = PInf"
| "js_add NInf _ = NInf"
| "js_add (Fin a) b = b"

definition js_sub :: "jsnum \<Rightarrow> jsnum \<Rightarrow> jsnum" where
  "js_sub a b = js_add a (js_neg b)"

fun js_abs :: "jsnum \<Rightarrow> jsnum" where
  "js_abs (Fin a) = Fin \<bar>a\<bar>"
| "js_abs PInf = PInf"
| "js_abs NInf = PInf"
| "js_abs NaN = NaN"

fun js_lt :: "jsnum \<Rightarrow> jsnum \<Rightarrow> bool" where
  "js_lt NaN _ = False"
| "js_lt _ NaN = False"
| "js_lt (Fin a) (Fin b) = (a < b)"
| "js_lt _ NInf = False"
| "js_lt NInf _ = True"
| "js_lt PInf _ = False"
| "js_lt (Fin a) PInf = True"

definition js_gt :: "jsnum \<Rightarrow> jsnum \<Rightarrow> bool" where
  "js_gt a b = js_lt b a"

text \<open>\<open>a % b\<close> keeps the sign of the dividend: the quotient is truncated toward zero.\<close>

definition trunc :: "rat \<Rightarrow> int" where
  "trunc q = (if 0 \<le> q then \<lfloor>q\<rfloor> else \<lceil>q\<rceil>)"

fun js_rem :: "jsnum \<Rightarrow> jsnum \<Rightarrow> jsnum" where
  "js_rem (Fin a) (Fin b) = (if b = 0 then NaN else Fin (a - b * of_int (trunc (a / b))))"
| "js_rem (Fin a) PInf = Fin a"
| "js_rem (Fin a) NInf = Fin a"
| "js_rem _ _ = NaN"

definition sgn_pos :: "rat \<Rightarrow> jsnum" where
  "sgn_pos a = (if a = 0 then NaN else if 0 < a then PInf else NInf)"

fun js_mul :: "jsnum \<Rightarrow> jsnum \<Rightarrow> jsnum" where
  "js_mul NaN _ = NaN"
| "js_mul _ NaN = NaN"
| "js_mul (Fin a) (Fin b) = Fin (a * b)"
| "js_mul (Fin a) PInf = sgn_pos a"
| "js_mul (Fin a) NInf = sgn_pos (- a)"
| "js_mul PInf (Fin b) = sgn_pos b"
| "js_mul NInf (Fin b) = sgn_pos (- b)"
| "js_mul PInf PInf = PInf"
| "js_mul NInf NInf = PInf"
| "js_mul PInf NInf = NInf"
| "js_mul NInf PInf = NInf"

fun js_div :: "jsnum \<Rightarrow> jsnum \<Rightarrow> jsnum" where
  "js_div NaN _ = NaN"
| "js_div _ NaN = NaN"
| "js_div (Fin a) (Fin b) = (if b = 0 then sgn_pos a else Fin (a / b))"
| "js_div (Fin a) _ = Fin 0"
| "js_div PInf (Fin b) = (if 0 \<le> b then PInf else NInf)"
| "js_div NInf (Fin b) = (if 0 \<le> b then NInf else PInf)"
| "js_div _ _ = NaN"

text \<open>\<open>a !== b\<close> on two numbers: \<open>NaN\<close> differs from everything, itself included.\<close>

definition js_strict_neq :: "jsnum \<Rightarrow> jsnum \<Rightarrow> bool" where
  "js_strict_neq a b = (a = NaN \<or> b = NaN \<or> a \<noteq> b)"

text \<open>
  Property read \<open>v.k\<close> on a value that is neither \<open>null\<close> nor \<open>undefined\<close>, for the
  keys this service reads (\<open>score\<close>, \<open>gameData\<close>, \<open>timestamp\<close>, \<open>difficulty\<close>,
  \<open>snakeLength\<close>, \<open>gameTime\<close>): no built-in prototype defines them, so anything but
  an object with that own key yields \<open>undefined\<close>. A parsed object has distinct keys.
\<close>

fun get_prop :: "jsval \<Rightarrow> string \<Rightarrow> jsval" where
  "get_prop (JObj kvs) k = (case map_of kvs k of Some v \<Rightarrow> v | None \<Rightarrow> JUndefined)"
| "get_prop _ k = JUndefined"

text \<open>Truthiness, as \<open>!gameData\<close> tests it.\<close>

fun truthy :: "jsval \<Rightarrow> bool" where
  "truthy JUndefined = False"
| "truthy JNull = False"
| "truthy (JBool b) = b"
| "truthy (JNum n) = (n \<noteq> Fin 0 \<and> n \<noteq> NaN)"
| "truthy (JStr s) = (s \<noteq> [])"
| "truthy (JArr _) = True"
| "truthy (JObj _) = True"

fun typeof :: "jsval \<Rightarrow> string" where
  "typeof JUndefined = ''undefined''"
| "typeof JNull = ''object''"
| "typeof (JBool _) = ''boolean''"
| "typeof (JNum _) = ''number''"
| "typeof (JStr _) = ''string''"
| "typeof (JArr _) = ''object''"
| "typeof (JObj _) = ''object''"

section \<open>Score submission service: validator\<close>

text \<open>
  \<open>validateScore\<close> returns \<open>{valid: true}\<close> or \<open>{valid: false, error}\<close>. Destructuring
  \<open>null\<close> or \<open>undefined\<close> throws a TypeError. Each \<open>typeof x !== 'number' || ...\<close>
  is a case on the value, so the arithmetic is only ever applied to a number, as the
  short-circuit does. \<open>Date.now()\<close> is the parameter \<open>now\<close>.
\<close>

datatype verdict = Valid | Invalid string

definition validDifficulties :: "jsval list" where
  "validDifficulties = [JStr ''EASY'', JStr ''MEDIUM'', JStr ''HARD'']"

definition validateScore :: "int \<Rightarrow> jsval \<Rightarrow> failure + verdict" where
  "validateScore now data =
     (if data = JNull \<or> data = JUndefined then Inl TypeError
      else
        let score = get_prop data ''score'';
            gameData = get_prop data ''gameData'';
            timestamp = get_prop data ''timestamp''
        in case score of
          JNum sc \<Rightarrow>
            if js_strict_neq (js_rem sc (Fin 10)) (Fin 0) then Inr (Invalid ''Invalid score format'')
            else if js_lt sc (Fin 0) \<or> js_gt sc (Fin 10000) then Inr (Invalid ''Score out of range'')
            else (case timestamp of
              JNum ts \<Rightarrow>
                if js_gt (js_abs (js_sub (Fin (of_int now)) ts)) (Fin 600000)
                then Inr (Invalid ''Timestamp expired'')
                else if \<not> truthy gameData \<or> typeof gameData \<noteq> ''object''
                then Inr (Invalid ''Missing game data'')
                else
                  let difficulty = get_prop gameData ''difficulty'';
                      snakeLength = get_prop gameData ''snakeLength'';
                      gameTime = get_prop gameData ''gameTime''
                  in if difficulty \<notin> set validDifficulties then Inr (Invalid ''Invalid difficulty'')
                  else
                    let expectedLength = js_add (js_div sc (Fin 10)) (Fin 3)
                    in (case snakeLength of
                      JNum sl \<Rightarrow>
                        if js_gt (js_abs (js_sub sl expectedLength)) (Fin 2)
                        then Inr (Invalid ''Invalid game data'')
                        else
                          let minGameTime = js_mul (js_div sc (Fin 10)) (Fin 500)
                          in (case gameTime of
                            JNum gt \<Rightarrow>
                              if js_lt gt minGameTime then Inr (Invalid ''Invalid game time'')
                              else Inr Valid
                          | _ \<Rightarrow> Inr (Invalid ''Invalid game time''))
                    | _ \<Rightarrow> Inr (Invalid ''Invalid game data''))
            | _ \<Rightarrow> Inr (Invalid ''Timestamp expired''))
        | _ \<Rightarrow> Inr (Invalid ''Invalid score format''))"

text \<open>
  The theoretical maximum of the game: every cell of the grid eaten once, at the
  per-food value of \<open>CONFIG\<close> (\<open>GRID_SIZE\<close> 20, \<open>POINTS_PER_FOOD\<close> 10).
\<close>

definition GRID_SIZE :: int where
  "GRID_SIZE = 20"

definition POINTS_PER_FOOD :: int where
  "POINTS_PER_FOOD = 10"

definition theoreticalMaxScore :: int where
  "theoreticalMaxScore = GRID_SIZE * GRID_SIZE * POINTS_PER_FOOD"

section \<open>Score submission service: leaderboard update\<close>

record entry =
  e_id :: string
  e_score :: jsnum
  e_difficulty :: jsval
  e_snakeLength :: jsval
  e_gameTime :: jsval
  e_timestamp :: jsnum

record leaderboard =
  version :: int
  lastUpdated :: int
  scores :: "entry list"

text \<open>The comparator handed to \<open>Array.prototype.sort\<close>.\<close>

definition compareFn :: "entry \<Rightarrow> entry \<Rightarrow> jsnum" where
  "compareFn a b =
     (if js_strict_neq (e_score b) (e_score a) then js_sub (e_score b) (e_score a)
      else js_sub (e_timestamp a) (e_timestamp b))"

text \<open>
  \<open>Array.prototype.sort\<close> is stable, and \<open>a\<close> comes after \<open>b\<close> only when the
  comparator is positive. For a consistent comparator the result is the one of a stable
  insertion sort; for an inconsistent one (a \<open>NaN\<close> key) the language leaves the order
  to the engine, and the theorems below are about finite keys.
\<close>

fun insert_sorted :: "('a \<Rightarrow> 'a \<Rightarrow> jsnum) \<Rightarrow> 'a \<Rightarrow> 'a list \<Rightarrow> 'a list" where
  "insert_sorted cmp x [] = [x]"
| "insert_sorted cmp x (y # ys) =
     (if js_gt (cmp x y) (Fin 0) then y # insert_sorted cmp x ys else x # y # ys)"

definition array_sort :: "('a \<Rightarrow> 'a \<Rightarrow> jsnum) \<Rightarrow> 'a list \<Rightarrow> 'a list" where
  "array_sort cmp xs = foldr (insert_sorted cmp) xs []"

text \<open>\<open>findIndex\<close> returns \<open>-1\<close> when no element satisfies the predicate.\<close>

fun findIndex :: "('a \<Rightarrow> bool) \<Rightarrow> 'a list \<Rightarrow> int" where
  "findIndex P [] = - 1"
| "findIndex P (x # xs) =
     (if P x then 0 else (let r = findIndex P xs in if r < 0 then - 1 else r + 1))"

text \<open>
  The read-modify-write step of the handler, from \<open>scores.push(newEntry)\<close> to the
  computation of \<open>rank\<close> and \<open>madeLeaderboard\<close>: the new list of scores and the rank
  reported to the caller (\<open>None\<close> for \<open>null\<close>).
\<close>

definition insertScore :: "entry \<Rightarrow> entry list \<Rightarrow> entry list \<times> int option" where
  "insertScore newEntry stored =
     (let pushed = stored @ [newEntry];
          sortedScores = array_sort compareFn pushed;
          topScores = take 20 sortedScores;
          rank = findIndex (\<lambda>s. e_id s = e_id newEntry) topScores + 1;
          madeLeaderboard = (rank > 0 \<and> rank \<le> 20)
      in (topScores, if madeLeaderboard then Some rank else None))"

text \<open>
  The blob store is an external collaborator: \<open>gets k\<close> is what the \<open>k\<close>-th call of
  \<open>store.get\<close> in this request does (throw, or return the record, \<open>None\<close> for
  \<open>null\<close>), \<open>sets k\<close> whether the \<open>k\<close>-th \<open>store.setJSON\<close> succeeds. Both retry
  loops start with \<open>retries = 3\<close>; the loop that never runs leaves the variable
  undefined, which the next line turns into a throw.
\<close>

datatype 'a attempt = Throws | Returns 'a

fun fetchLeaderboard ::
  "nat \<Rightarrow> (nat \<Rightarrow> leaderboard option attempt) \<Rightarrow> nat \<Rightarrow> int \<Rightarrow> leaderboard attempt" where
  "fetchLeaderboard 0 gets k now = Throws"
| "fetchLeaderboard (Suc retries) gets k now =
     (case gets k of
        Returns existing \<Rightarrow>
          Returns (case existing of
                     Some d \<Rightarrow> d
                   | None \<Rightarrow> \<lparr>version = 1, lastUpdated = now, scores = []\<rparr>)
      | Throws \<Rightarrow> if retries = 0 then Throws else fetchLeaderboard retries gets (Suc k) now)"

fun saveLeaderboard :: "nat \<Rightarrow> (nat \<Rightarrow> bool) \<Rightarrow> nat \<Rightarrow> unit attempt" where
  "saveLeaderboard 0 sets k = Returns ()"
| "saveLeaderboard (Suc retries) sets k =
     (if sets k then Returns ()
      else if retries = 0 then Throws else saveLeaderboard retries sets (Suc k))"

section \<open>Score submission service: the two handlers\<close>

record request =
  http_method :: string
  context_ip :: "string option"
  x_forwarded_for :: "string option"
  json :: "jsval attempt"

text \<open>
  A response is its status code and its JSON body. The bodies the two handlers build:
  \<open>ErrorOnly e\<close> is \<open>{error: e}\<close>, \<open>Failure e\<close> is \<open>{success: false, error: e}\<close>,
  \<open>SubmitSuccess rank message\<close> is \<open>{success: true, rank, message}\<close> with \<open>None\<close> for a
  \<open>null\<close> rank, \<open>ScoresSuccess scores lastUpdated\<close> is
  \<open>{success: true, scores, lastUpdated}\<close> and \<open>ScoresFailure e scores\<close> is
  \<open>{success: false, error: e, scores}\<close>. The message is the leaderboard line with the
  rank in it, or the plain acknowledgement.
\<close>

datatype message = MadeLeaderboard int | Submitted

datatype body =
    ErrorOnly string
  | Failure string
  | SubmitSuccess "int option" message
  | ScoresSuccess "entry list" int
  | ScoresFailure string "entry list"

record response =
  status :: nat
  body :: body

text \<open>\<open>context.ip || request.headers.get('x-forwarded-for') || 'unknown'\<close>: the empty string is falsy.\<close>

definition clientIp :: "request \<Rightarrow> string" where
  "clientIp request =
     (case context_ip request of
        Some a \<Rightarrow> if a \<noteq> [] then a
                  else (case x_forwarded_for request of
                          Some b \<Rightarrow> if b \<noteq> [] then b else ''unknown''
                        | None \<Rightarrow> ''unknown'')
      | None \<Rightarrow> (case x_forwarded_for request of
                    Some b \<Rightarrow> if b \<noteq> [] then b else ''unknown''
                  | None \<Rightarrow> ''unknown''))"

definition serverError :: response where
  "serverError = \<lparr>status = 500, body = Failure ''Server error''\<rparr>"

text \<open>
  The submit-score handler. \<open>newId\<close> is what \<open>generateId()\<close> returns; the successive
  reads of \<open>Date.now()\<close> within one request are the one value \<open>now\<close>. The result is
  the response, the rate-limit map, and the record written to the store (\<open>None\<close> when
  nothing was written). Any throw inside the \<open>try\<close> block ends in the 500 answer. The
  branch for a validated body whose score or timestamp is not a number is never taken.
\<close>

definition submitScore ::
  "request \<Rightarrow> int \<Rightarrow> string \<Rightarrow> (nat \<Rightarrow> leaderboard option attempt) \<Rightarrow> (nat \<Rightarrow> bool) \<Rightarrow>
   rateLimitMap \<Rightarrow> response \<times> rateLimitMap \<times> leaderboard option" where
  "submitScore request now newId gets sets rl =
     (if http_method request \<noteq> ''POST''
      then (\<lparr>status = 405, body = ErrorOnly ''Method not allowed''\<rparr>, rl, None)
      else
        let ip = clientIp request;
            (admitted, rl') = checkRateLimit ip now rl
        in if \<not> admitted
           then (\<lparr>status = 429,
                  body = Failure ''Rate limit exceeded. Please wait before submitting again.''\<rparr>,
                 rl', None)
           else (case json request of
             Throws \<Rightarrow> (serverError, rl', None)
           | Returns data \<Rightarrow>
               (case validateScore now data of
                  Inl e \<Rightarrow> (serverError, rl', None)
                | Inr (Invalid err) \<Rightarrow> (\<lparr>status = 400, body = Failure err\<rparr>, rl', None)
                | Inr Valid \<Rightarrow>
                    (case fetchLeaderboard 3 gets 0 now of
                       Throws \<Rightarrow> (serverError, rl', None)
                     | Returns leaderboardData \<Rightarrow>
                         (case (get_prop data ''score'', get_prop data ''timestamp'') of
                            (JNum score, JNum timestamp) \<Rightarrow>
                              let gameData = get_prop data ''gameData'';
                                  newEntry = \<lparr>e_id = newId, e_score = score,
                                              e_difficulty = get_prop gameData ''difficulty'',
                                              e_snakeLength = get_prop gameData ''snakeLength'',
                                              e_gameTime = get_prop gameData ''gameTime'',
                                              e_timestamp = timestamp\<rparr>;
                                  (topScores, rank) = insertScore newEntry (scores leaderboardData);
                                  updated = leaderboardData\<lparr>scores := topScores, lastUpdated := now\<rparr>
                              in (case saveLeaderboard 3 sets 0 of
                                    Throws \<Rightarrow> (serverError, rl', None)
                                  | Returns _ \<Rightarrow>
                                      (\<lparr>status = 200,
                                        body = SubmitSuccess rank
                                          (case rank of Some r \<Rightarrow> MadeLeaderboard r
                                                      | None \<Rightarrow> Submitted)\<rparr>,
                                       rl', Some updated))
                          | _ \<Rightarrow> (serverError, rl', None))))))"

text \<open>The get-leaderboard handler, with its module-level cache.\<close>

record cache =
  cachedData :: "leaderboard option"
  cacheTimestamp :: int

definition CACHE_TTL :: int where
  "CACHE_TTL = 5000"

definition getLeaderboard ::
  "string \<Rightarrow> int \<Rightarrow> (nat \<Rightarrow> leaderboard option attempt) \<Rightarrow> cache \<Rightarrow> response \<times> cache" where
  "getLeaderboard meth now gets c =
     (if meth \<noteq> ''GET''
      then (\<lparr>status = 405, body = ErrorOnly ''Method not allowed''\<rparr>, c)
      else
        case (if now - cacheTimestamp c < CACHE_TTL then cachedData c else None) of
          Some d \<Rightarrow> (\<lparr>status = 200, body = ScoresSuccess (scores d) (lastUpdated d)\<rparr>, c)
        | None \<Rightarrow>
            (case fetchLeaderboard 3 gets 0 now of
               Throws \<Rightarrow> (\<lparr>status = 500, body = ScoresFailure ''Server error'' []\<rparr>, c)
             | Returns leaderboardData \<Rightarrow>
                 (\<lparr>status = 200,
                   body = ScoresSuccess (scores leaderboardData) (lastUpdated leaderboardData)\<rparr>,
                  \<lparr>cachedData = Some leaderboardData, cacheTimestamp = now\<rparr>)))"

section \<open>The game: state\<close>

text \<open>
  \<open>gameState\<close> is the one global object of \<open>game.js\<close>. A grid coordinate \<open>{x, y}\<close> is
  a pair. The two timer ids are modelled by whether a callback is pending; \<open>overlay\<close>
  records which overlay \<open>UI.showOverlay\<close> / \<open>UI.hideOverlay\<close> left on screen. The
  \<open>leaderboard\<close> sub-object and the canvas are not part of the model.
\<close>

type_synonym cell = "int \<times> int"

datatype difficultyKey = EASY | MEDIUM | HARD

record difficulty =
  foodTimeout :: int
  initialSpeed :: int
  speedIncrement :: int

fun CONFIG_DIFFICULTY :: "difficultyKey \<Rightarrow> difficulty" where
  "CONFIG_DIFFICULTY EASY = \<lparr>foodTimeout = 7000, initialSpeed = 200, speedIncrement = 3\<rparr>"
| "CONFIG_DIFFICULTY MEDIUM = \<lparr>foodTimeout = 5000, initialSpeed = 150, speedIncrement = 5\<rparr>"
| "CONFIG_DIFFICULTY HARD = \<lparr>foodTimeout = 3000, initialSpeed = 100, speedIncrement = 8\<rparr>"

definition MIN_SPEED :: int where
  "MIN_SPEED = 50"

definition INITIAL_SNAKE_LENGTH :: nat where
  "INITIAL_SNAKE_LENGTH = 3"

definition MIN_SWIPE_DISTANCE :: rat where
  "MIN_SWIPE_DISTANCE = 30"

datatype overlay = Hidden | StartScreen | GameOverScreen

record gameState =
  snake :: "cell list"
  direction :: cell
  nextDirection :: cell
  food :: cell
  score :: int
  isPlaying :: bool
  gameLoopId :: bool
  speed :: int
  shouldGrow :: bool
  difficulty :: "difficulty option"
  difficultyKey :: "difficultyKey option"
  foodTimerId :: bool
  gameStartTime :: "int option"
  overlay :: overlay

text \<open>The state after the script has loaded and \<open>Game.init\<close> has shown the first overlay.\<close>

definition initialState :: gameState where
  "initialState =
     \<lparr>snake = [], direction = (1, 0), nextDirection = (1, 0), food = (0, 0), score = 0,
      isPlaying = False, gameLoopId = False, speed = 150, shouldGrow = False,
      difficulty = None, difficultyKey = None, foodTimerId = False, gameStartTime = None,
      overlay = StartScreen\<rparr>"

section \<open>The game: Snake module\<close>

definition initialize :: "gameState \<Rightarrow> gameState" where
  "initialize s =
     (let centerX = GRID_SIZE div 2;
          centerY = GRID_SIZE div 2
      in s\<lparr>snake := map (\<lambda>i. (centerX - int i, centerY)) [0..<INITIAL_SNAKE_LENGTH],
            direction := (1, 0), nextDirection := (1, 0), shouldGrow := False\<rparr>)"

text \<open>\<open>gameState.snake[0]\<close> of an empty array is \<open>undefined\<close>, and reading \<open>.x\<close> of it throws.\<close>

definition move :: "gameState \<Rightarrow> failure + gameState" where
  "move s =
     (let s1 = s\<lparr>direction := nextDirection s\<rparr>
      in case snake s1 of
           [] \<Rightarrow> Inl TypeError
         | head # _ \<Rightarrow>
             let newHead = (fst head + fst (direction s1), snd head + snd (direction s1));
                 s2 = s1\<lparr>snake := newHead # snake s1\<rparr>
             in if \<not> shouldGrow s2 then Inr (s2\<lparr>snake := butlast (snake s2)\<rparr>)
                else Inr (s2\<lparr>shouldGrow := False\<rparr>))"

definition grow :: "gameState \<Rightarrow> gameState" where
  "grow s = s\<lparr>shouldGrow := True\<rparr>"

text \<open>
  \<open>checkSelfCollision\<close> reads \<open>head.x\<close> only inside its loop over the indices from 1, so
  on an empty snake, as on a snake of one segment, the loop does not run and the answer is
  \<open>false\<close>; nothing is thrown. \<open>checkWallCollision\<close> reads \<open>head.x\<close> at once and throws
  on an empty snake.
\<close>

definition checkSelfCollision :: "gameState \<Rightarrow> failure + bool" where
  "checkSelfCollision s =
     (case snake s of
        [] \<Rightarrow> Inr False
      | head # rest \<Rightarrow> Inr (head \<in> set rest))"

definition checkWallCollision :: "gameState \<Rightarrow> failure + bool" where
  "checkWallCollision s =
     (case snake s of
        [] \<Rightarrow> Inl TypeError
      | head # _ \<Rightarrow>
          Inr (fst head < 0 \<or> fst head \<ge> GRID_SIZE \<or> snd head < 0 \<or> snd head \<ge> GRID_SIZE))"

section \<open>The game: Food module\<close>

text \<open>
  \<open>Math.random()\<close> is a sequence \<open>rnd\<close> of values read one after the other; \<open>i\<close> is the
  number of values already consumed. The \<open>do ... while (isOnSnake)\<close> loop has no bound:
  when it never leaves, the result is \<open>None\<close>.
\<close>

definition randomCell :: "(nat \<Rightarrow> rat) \<Rightarrow> nat \<Rightarrow> cell" where
  "randomCell rnd i = (\<lfloor>rnd i * of_int GRID_SIZE\<rfloor>, \<lfloor>rnd (Suc i) * of_int GRID_SIZE\<rfloor>)"

partial_function (option) generate_loop :: "(nat \<Rightarrow> rat) \<Rightarrow> nat \<Rightarrow> cell list \<Rightarrow> (cell \<times> nat) option" where
  "generate_loop rnd i segments =
     (if randomCell rnd i \<in> set segments
      then generate_loop rnd (i + 2) segments
      else Some (randomCell rnd i, i + 2))"

definition clearTimer :: "gameState \<Rightarrow> gameState" where
  "clearTimer s = s\<lparr>foodTimerId := False\<rparr>"

definition startTimer :: "gameState \<Rightarrow> gameState" where
  "startTimer s =
     (let s1 = clearTimer s
      in if isPlaying s1 \<and> difficulty s1 \<noteq> None then s1\<lparr>foodTimerId := True\<rparr> else s1)"

definition generate :: "(nat \<Rightarrow> rat) \<Rightarrow> nat \<Rightarrow> gameState \<Rightarrow> failure + gameState \<times> nat" where
  "generate rnd i s =
     (case generate_loop rnd i (snake s) of
        None \<Rightarrow> Inl Diverges
      | Some (newFood, j) \<Rightarrow> Inr (startTimer (s\<lparr>food := newFood\<rparr>), j))"

definition relocate :: "(nat \<Rightarrow> rat) \<Rightarrow> nat \<Rightarrow> gameState \<Rightarrow> failure + gameState \<times> nat" where
  "relocate rnd i s = generate rnd i s"

definition checkCollision :: "gameState \<Rightarrow> failure + bool" where
  "checkCollision s =
     (case snake s of
        [] \<Rightarrow> Inl TypeError
      | head # _ \<Rightarrow> Inr (fst head = fst (food s) \<and> snd head = snd (food s)))"

definition regenerate :: "(nat \<Rightarrow> rat) \<Rightarrow> nat \<Rightarrow> gameState \<Rightarrow> failure + gameState \<times> nat" where
  "regenerate rnd i s = generate rnd i (clearTimer s)"

section \<open>The game: Input and Game modules\<close>

definition setDirection :: "cell \<Rightarrow> gameState \<Rightarrow> gameState" where
  "setDirection newDirection s =
     (let isOpposite =
            ((fst newDirection = - fst (direction s) \<and> fst newDirection \<noteq> 0) \<or>
             (snd newDirection = - snd (direction s) \<and> snd newDirection \<noteq> 0))
      in if \<not> isOpposite then s\<lparr>nextDirection := newDirection\<rparr> else s)"

definition selectDifficulty :: "difficultyKey \<Rightarrow> gameState \<Rightarrow> gameState" where
  "selectDifficulty difficultyLevel s =
     s\<lparr>difficulty := Some (CONFIG_DIFFICULTY difficultyLevel),
       difficultyKey := Some difficultyLevel\<rparr>"

definition reset :: "gameState \<Rightarrow> gameState" where
  "reset s = (clearTimer (s\<lparr>gameLoopId := False\<rparr>))\<lparr>score := 0, isPlaying := False, shouldGrow := False\<rparr>"

text \<open>
  \<open>Game.gameOver\<close> up to its first \<open>await\<close>: the flag, the timers and the overlay. What
  follows (the two network calls and the leaderboard panel) does not touch the fields
  of the model.
\<close>

definition gameOver :: "gameState \<Rightarrow> gameState" where
  "gameOver s = (clearTimer (s\<lparr>isPlaying := False, gameLoopId := False\<rparr>))\<lparr>overlay := GameOverScreen\<rparr>"

text \<open>One run of \<open>Game.loop\<close>; the last line schedules the next one.\<close>

definition loop :: "(nat \<Rightarrow> rat) \<Rightarrow> nat \<Rightarrow> gameState \<Rightarrow> failure + gameState \<times> nat" where
  "loop rnd i s =
     (if \<not> isPlaying s then Inr (s, i)
      else case move s of
        Inl e \<Rightarrow> Inl e
      | Inr s1 \<Rightarrow>
          (case checkWallCollision s1 of
             Inl e \<Rightarrow> Inl e
           | Inr wall \<Rightarrow>
               (case (if wall then Inr True else checkSelfCollision s1) of
                  Inl e \<Rightarrow> Inl e
                | Inr True \<Rightarrow> Inr (gameOver s1, i)
                | Inr False \<Rightarrow>
                    (case checkCollision s1 of
                       Inl e \<Rightarrow> Inl e
                     | Inr False \<Rightarrow> Inr (s1\<lparr>gameLoopId := True\<rparr>, i)
                     | Inr True \<Rightarrow>
                         (let s2 = grow s1;
                              s3 = s2\<lparr>score := score s2 + POINTS_PER_FOOD\<rparr>
                          in case regenerate rnd i s3 of
                               Inl e \<Rightarrow> Inl e
                             | Inr (s4, j) \<Rightarrow>
                                 (case difficulty s4 of
                                    None \<Rightarrow> Inl TypeError
                                  | Some d \<Rightarrow>
                                      Inr (s4\<lparr>speed := max MIN_SPEED (speed s4 - speedIncrement d),
                                              gameLoopId := True\<rparr>, j)))))))"

text \<open>\<open>Game.start\<close>; \<open>now\<close> is the \<open>Date.now()\<close> stored as the start time.\<close>

definition start :: "(nat \<Rightarrow> rat) \<Rightarrow> nat \<Rightarrow> int \<Rightarrow> gameState \<Rightarrow> failure + gameState \<times> nat" where
  "start rnd i now s =
     (case difficulty s of
        None \<Rightarrow> Inr (s, i)
      | Some d \<Rightarrow>
          (case generate rnd i (initialize (reset s)) of
             Inl e \<Rightarrow> Inl e
           | Inr (s1, j) \<Rightarrow>
               loop rnd j (s1\<lparr>gameStartTime := Some now, overlay := Hidden,
                             speed := initialSpeed d, isPlaying := True\<rparr>)))"

text \<open>
  The \<open>key\<close> of a keyboard event is the character the key produces (\<open>Character\<close>, the
  space bar included) or the name of a key that produces none. Of the named keys the
  handler tells the four arrows apart; \<open>OtherKey\<close> is any other value a keyboard sends
  (\<open>Enter\<close>, \<open>Shift\<close>, \<open>Escape\<close>, a character outside ASCII, ...). None of these
  values is the name of a property that the object literal \<open>keyMap\<close> inherits from
  \<open>Object.prototype\<close> (\<open>constructor\<close>, \<open>toString\<close>, ...), so \<open>keyMap[e.key]\<close> is
  one of the twelve entries of the table or \<open>undefined\<close>. Events built by a script with
  such a name as key are outside the model.
\<close>

datatype key = Character char | ArrowUp | ArrowDown | ArrowLeft | ArrowRight | OtherKey

fun keyMap :: "key \<Rightarrow> cell option" where
  "keyMap ArrowUp = Some (0, - 1)"
| "keyMap ArrowDown = Some (0, 1)"
| "keyMap ArrowLeft = Some (- 1, 0)"
| "keyMap ArrowRight = Some (1, 0)"
| "keyMap (Character c) =
     (if c = CHR ''w'' \<or> c = CHR ''W'' then Some (0, - 1)
      else if c = CHR ''s'' \<or> c = CHR ''S'' then Some (0, 1)
      else if c = CHR ''a'' \<or> c = CHR ''A'' then Some (- 1, 0)
      else if c = CHR ''d'' \<or> c = CHR ''D'' then Some (1, 0)
      else None)"
| "keyMap OtherKey = None"

text \<open>The \<open>keydown\<close> listener of \<open>Input.setupKeyboard\<close>.\<close>

definition keydown :: "(nat \<Rightarrow> rat) \<Rightarrow> nat \<Rightarrow> int \<Rightarrow> key \<Rightarrow> gameState \<Rightarrow> failure + gameState \<times> nat" where
  "keydown rnd i now key s =
     (if key = Character CHR '' '' \<and> \<not> isPlaying s
      then (if difficulty s \<noteq> None then start rnd i now s else Inr (s, i))
      else case keyMap key of
             Some newDirection \<Rightarrow>
               if isPlaying s then Inr (setDirection newDirection s, i) else Inr (s, i)
           | None \<Rightarrow> Inr (s, i))"

text \<open>
  The \<open>touchend\<close> listener; \<open>deltaX\<close> and \<open>deltaY\<close> are the differences of the touch
  coordinates. \<open>Math.sqrt(d) < 30\<close> is compared on the squares.
\<close>

definition touchend :: "rat \<Rightarrow> rat \<Rightarrow> gameState \<Rightarrow> gameState" where
  "touchend deltaX deltaY s =
     (if \<not> isPlaying s then s
      else if deltaX * deltaX + deltaY * deltaY < MIN_SWIPE_DISTANCE * MIN_SWIPE_DISTANCE then s
      else if \<bar>deltaX\<bar> > \<bar>deltaY\<bar>
           then (if deltaX > 0 then setDirection (1, 0) s else setDirection (- 1, 0) s)
           else (if deltaY > 0 then setDirection (0, 1) s else setDirection (0, - 1) s))"

text \<open>
  Everything that can happen to the page: a key, a touch, a click on the start button
  or on a difficulty button, and the two timers firing. A timer fires only while its
  callback is pending, and firing consumes it.
\<close>

datatype event =
    KeyDown key
  | TouchStart
  | TouchEnd rat rat
  | ClickStart
  | ClickDifficulty difficultyKey
  | LoopTimer
  | FoodTimer

fun step :: "(nat \<Rightarrow> rat) \<Rightarrow> nat \<Rightarrow> int \<Rightarrow> event \<Rightarrow> gameState \<Rightarrow> failure + gameState \<times> nat" where
  "step rnd i now (KeyDown key) s = keydown rnd i now key s"
| "step rnd i now TouchStart s = (if \<not> isPlaying s then start rnd i now s else Inr (s, i))"
| "step rnd i now (TouchEnd deltaX deltaY) s = Inr (touchend deltaX deltaY s, i)"
| "step rnd i now ClickStart s = (if \<not> isPlaying s then start rnd i now s else Inr (s, i))"
| "step rnd i now (ClickDifficulty k) s = Inr (selectDifficulty k s, i)"
| "step rnd i now LoopTimer s =
     (if gameLoopId s then loop rnd i (s\<lparr>gameLoopId := False\<rparr>) else Inr (s, i))"
| "step rnd i now FoodTimer s =
     (if foodTimerId s then relocate rnd i (s\<lparr>foodTimerId := False\<rparr>) else Inr (s, i))"

text \<open>
  The code has no status field. The four states of the session lifecycle are read off
  the flag, the selected difficulty and the overlay on screen.
\<close>

datatype status = Idle | AwaitingStart | Running | GameOver

definition status_of :: "gameState \<Rightarrow> status" where
  "status_of s =
     (if isPlaying s then Running
      else if overlay s = GameOverScreen then GameOver
      else if difficulty s = None then Idle
      else AwaitingStart)"

section \<open>Request sequences\<close>

text \<open>
  The verdicts the rate limiter gives to the requests of one address \<open>ip\<close>, when the
  requests \<open>rs\<close> (address and arrival time, in order of arrival, other addresses
  among them) are checked one after the other starting from the map \<open>m\<close>.
\<close>

fun verdictsFor :: "string \<Rightarrow> (string \<times> int) list \<Rightarrow> rateLimitMap \<Rightarrow> bool list" where
  "verdictsFor ip [] m = []"
| "verdictsFor ip ((a, now) # rs) m =
     (let (ok, m') = checkRateLimit a now m
      in if a = ip then ok # verdictsFor ip rs m' else verdictsFor ip rs m')"

text \<open>A request at \<open>now\<close> is the first of a window: no entry yet, or the window has aged out.\<close>

definition opensWindow :: "rateLimitMap \<Rightarrow> string \<Rightarrow> int \<Rightarrow> bool" where
  "opensWindow m ip now =
     (case m ip of None \<Rightarrow> True | Some entry \<Rightarrow> now - windowStart entry > RATE_LIMIT_WINDOW)"

section \<open>Ranking order and sample data\<close>

text \<open>
  \<open>Number.isFinite\<close>. An entry with finite keys is what a validated submission parsed
  from JSON produces: the parser never yields \<open>NaN\<close>, and the validator turns the
  infinities away.
\<close>

fun isFinite :: "jsnum \<Rightarrow> bool" where
  "isFinite (Fin _) = True"
| "isFinite _ = False"

definition finiteKeys :: "entry \<Rightarrow> bool" where
  "finiteKeys e = (isFinite (e_score e) \<and> isFinite (e_timestamp e))"

text \<open>
  The order of the leaderboard in the words of the specification: score descending, then
  timestamp ascending. \<open>ranksNoLater a b\<close> says that \<open>a\<close> may stand before \<open>b\<close>.
\<close>

definition ranksNoLater :: "entry \<Rightarrow> entry \<Rightarrow> bool" where
  "ranksNoLater a b =
     (js_gt (e_score a) (e_score b) \<or>
      (e_score a = e_score b \<and> \<not> js_gt (e_timestamp a) (e_timestamp b)))"

text \<open>A stored leaderboard, a submission body, a request and a well-behaved store.\<close>

definition exampleBoard :: leaderboard where
  "exampleBoard =
     \<lparr>version = 1, lastUpdated = 999000,
      scores =
        [\<lparr>e_id = ''a'', e_score = Fin 200, e_difficulty = JStr ''HARD'',
          e_snakeLength = JNum (Fin 23), e_gameTime = JNum (Fin 90000), e_timestamp = Fin 5000\<rparr>,
         \<lparr>e_id = ''b'', e_score = Fin 120, e_difficulty = JStr ''EASY'',
          e_snakeLength = JNum (Fin 15), e_gameTime = JNum (Fin 7000), e_timestamp = Fin 999000\<rparr>]\<rparr>"

definition submission :: "rat \<Rightarrow> rat \<Rightarrow> string \<Rightarrow> rat \<Rightarrow> rat \<Rightarrow> jsval" where
  "submission sc ts d len time =
     JObj [(''score'', JNum (Fin sc)), (''timestamp'', JNum (Fin ts)),
           (''gameData'', JObj [(''difficulty'', JStr d), (''snakeLength'', JNum (Fin len)),
                                (''gameTime'', JNum (Fin time))])]"

definition postFrom :: "string \<Rightarrow> jsval \<Rightarrow> request" where
  "postFrom ip data =
     \<lparr>http_method = ''POST'', context_ip = Some ip, x_forwarded_for = None, json = Returns data\<rparr>"

definition storeHolds :: "leaderboard option \<Rightarrow> nat \<Rightarrow> leaderboard option attempt" where
  "storeHolds stored k = Returns stored"

definition storeAccepts :: "nat \<Rightarrow> bool" where
  "storeAccepts k = True"

text \<open>
  The cache of the get-leaderboard function is only ever filled from a read of the store.
  While the store has never held a record, a cached copy can only be the empty snapshot.
\<close>

definition cacheHoldsNoScores :: "cache \<Rightarrow> bool" where
  "cacheHoldsNoScores c = (case cachedData c of None \<Rightarrow> True | Some d \<Rightarrow> scores d = [])"

section \<open>The game: runs, invariants and sample states\<close>

text \<open>A list of events handled one after the other; the first failure ends the run.\<close>

fun steps :: "(nat \<Rightarrow> rat) \<Rightarrow> nat \<Rightarrow> int \<Rightarrow> event list \<Rightarrow> gameState \<Rightarrow> failure + gameState \<times> nat" where
  "steps rnd i now [] s = Inr (s, i)"
| "steps rnd i now (ev # evs) s =
     (case step rnd i now ev s of
        Inl e \<Rightarrow> Inl e
      | Inr (s', j) \<Rightarrow> steps rnd j now evs s')"

text \<open>The states the page can be in: the initial one and whatever an event makes of them.\<close>

inductive reachable :: "gameState \<Rightarrow> bool" where
  initial: "reachable initialState"
| after: "reachable s \<Longrightarrow> step rnd i now ev s = Inr (s', j) \<Longrightarrow> reachable s'"

text \<open>The events that call \<open>Game.start\<close> when no game is running.\<close>

fun startsGame :: "event \<Rightarrow> bool" where
  "startsGame (KeyDown key) = (key = Character CHR '' '')"
| "startsGame TouchStart = True"
| "startsGame ClickStart = True"
| "startsGame _ = False"

definition negation :: "cell \<Rightarrow> cell" where
  "negation d = (- fst d, - snd d)"

definition isUnit :: "cell \<Rightarrow> bool" where
  "isUnit d = (d = (1, 0) \<or> d = (- 1, 0) \<or> d = (0, 1) \<or> d = (0, - 1))"

text \<open>
  The invariant on the two directions: both are unit vectors of the 4-neighbourhood and
  the pending one is not the exact negation of the committed one.
\<close>

definition directionsOk :: "gameState \<Rightarrow> bool" where
  "directionsOk s =
     (isUnit (direction s) \<and> isUnit (nextDirection s) \<and>
      nextDirection s \<noteq> negation (direction s))"

text \<open>
  What holds of every reachable state besides: a running game has a difficulty and a
  snake, a stopped one has no timer pending, and the game-over overlay is only shown
  after a game.
\<close>

definition wellFormed :: "gameState \<Rightarrow> bool" where
  "wellFormed s =
     (directionsOk s \<and>
      (isPlaying s \<longrightarrow> difficulty s \<noteq> None \<and> snake s \<noteq> []) \<and>
      (\<not> isPlaying s \<longrightarrow> \<not> gameLoopId s \<and> \<not> foodTimerId s) \<and>
      (overlay s = GameOverScreen \<longrightarrow> difficulty s \<noteq> None))"

definition inGrid :: "cell \<Rightarrow> bool" where
  "inGrid c = (0 \<le> fst c \<and> fst c < GRID_SIZE \<and> 0 \<le> snd c \<and> snd c < GRID_SIZE)"

text \<open>
  After the move of a tick, the new head is outside \<open>[0, gridSize)\<close> on either axis or
  coincides with a segment other than the head.
\<close>

definition collides :: "gameState \<Rightarrow> bool" where
  "collides s =
     (case snake s of
        [] \<Rightarrow> False
      | head # rest \<Rightarrow> \<not> inGrid head \<or> head \<in> set rest)"

text \<open>A tick on which the food branch of \<open>Game.loop\<close> is taken: no collision, head on the food.\<close>

definition eatingTick :: "gameState \<Rightarrow> bool" where
  "eatingTick s =
     (case move s of
        Inl _ \<Rightarrow> False
      | Inr s1 \<Rightarrow>
          checkWallCollision s1 = Inr False \<and> checkSelfCollision s1 = Inr False \<and>
          checkCollision s1 = Inr True)"

text \<open>Two random sources: one that always draws 0, one that always draws one half.\<close>

definition zeroSource :: "nat \<Rightarrow> rat" where
  "zeroSource k = 0"

definition halfSource :: "nat \<Rightarrow> rat" where
  "halfSource k = 1 / 2"

text \<open>
  A game on EASY right after its start tick with the food one cell ahead of the head, and
  the same game after each of the next three ticks: the food is eaten, the food that
  reappeared one cell ahead is eaten too, and the snake moves on.
\<close>

definition aboutToEat :: gameState where
  "aboutToEat =
     \<lparr>snake = [(11, 10), (10, 10), (9, 10)], direction = (1, 0), nextDirection = (1, 0),
      food = (12, 10), score = 0, isPlaying = True, gameLoopId = True, speed = 200,
      shouldGrow = False, difficulty = Some (CONFIG_DIFFICULTY EASY), difficultyKey = Some EASY,
      foodTimerId = False, gameStartTime = Some 1000, overlay = Hidden\<rparr>"

definition justAte :: gameState where
  "justAte =
     \<lparr>snake = [(12, 10), (11, 10), (10, 10)], direction = (1, 0), nextDirection = (1, 0),
      food = (13, 10), score = 10, isPlaying = True, gameLoopId = True, speed = 197,
      shouldGrow = True, difficulty = Some (CONFIG_DIFFICULTY EASY), difficultyKey = Some EASY,
      foodTimerId = True, gameStartTime = Some 1000, overlay = Hidden\<rparr>"

definition ateAgain :: gameState where
  "ateAgain =
     \<lparr>snake = [(13, 10), (12, 10), (11, 10), (10, 10)], direction = (1, 0),
      nextDirection = (1, 0), food = (0, 0), score = 20, isPlaying = True, gameLoopId = True,
      speed = 194, shouldGrow = True, difficulty = Some (CONFIG_DIFFICULTY EASY),
      difficultyKey = Some EASY, foodTimerId = True, gameStartTime = Some 1000,
      overlay = Hidden\<rparr>"

definition grown :: gameState where
  "grown =
     \<lparr>snake = [(14, 10), (13, 10), (12, 10), (11, 10), (10, 10)], direction = (1, 0),
      nextDirection = (1, 0), food = (0, 0), score = 20, isPlaying = True, gameLoopId = True,
      speed = 194, shouldGrow = False, difficulty = Some (CONFIG_DIFFICULTY EASY),
      difficultyKey = Some EASY, foodTimerId = True, gameStartTime = Some 1000,
      overlay = Hidden\<rparr>"

text \<open>
  A game on EASY one tick before it runs into the right wall, the game-over state that
  tick leaves, and the state after the space key is pressed there.
\<close>

definition atTheWall :: gameState where
  "atTheWall =
     \<lparr>snake = [(19, 10), (18, 10), (17, 10)], direction = (1, 0), nextDirection = (1, 0),
      food = (0, 0), score = 0, isPlaying = True, gameLoopId = True, speed = 200,
      shouldGrow = False, difficulty = Some (CONFIG_DIFFICULTY EASY), difficultyKey = Some EASY,
      foodTimerId = False, gameStartTime = Some 1000, overlay = Hidden\<rparr>"

definition crashed :: gameState where
  "crashed =
     \<lparr>snake = [(20, 10), (19, 10), (18, 10)], direction = (1, 0), nextDirection = (1, 0),
      food = (0, 0), score = 0, isPlaying = False, gameLoopId = False, speed = 200,
      shouldGrow = False, difficulty = Some (CONFIG_DIFFICULTY EASY), difficultyKey = Some EASY,
      foodTimerId = False, gameStartTime = Some 1000, overlay = GameOverScreen\<rparr>"

definition restarted :: gameState where
  "restarted =
     \<lparr>snake = [(11, 10), (10, 10), (9, 10)], direction = (1, 0), nextDirection = (1, 0),
      food = (0, 0), score = 0, isPlaying = True, gameLoopId = True, speed = 200,
      shouldGrow = False, difficulty = Some (CONFIG_DIFFICULTY EASY), difficultyKey = Some EASY,
      foodTimerId = False, gameStartTime = Some 5000, overlay = Hidden\<rparr>"

text \<open>
  The state \<open>Game.start\<close> hands to its first tick when a difficulty \<open>d\<close> is selected
  and the food was placed on \<open>c\<close>.
\<close>

definition started :: "difficulty \<Rightarrow> int \<Rightarrow> cell \<Rightarrow> gameState \<Rightarrow> gameState" where
  "started d now c s =
     (initialize (reset s))\<lparr>food := c, foodTimerId := False, gameStartTime := Some now,
       overlay := Hidden, speed := initialSpeed d, isPlaying := True\<rparr>"

text \<open>A random source that draws the cells (12, 10), (13, 10) and (0, 0) from then on.\<close>

definition sampleSource :: "nat \<Rightarrow> rat" where
  "sampleSource k =
     (if k = 0 then 3 / 5 else if k = 1 then 1 / 2
      else if k = 2 then 13 / 20 else if k = 3 then 1 / 2 else 0)"

chapter \<open>Verification\<close>

section \<open>Rate limiter\<close>

lemma checkRateLimit_other:
  "a \<noteq> ip \<Longrightarrow> snd (checkRateLimit a now m) ip = m ip"
  by (simp add: checkRateLimit_def split: option.splits)

lemma checkRateLimit_open:
  "opensWindow m ip now \<Longrightarrow>
   checkRateLimit ip now m = (True, m(ip \<mapsto> \<lparr>windowStart = now, rl_count = 1\<rparr>))"
  by (cases "m ip") (simp_all add: checkRateLimit_def opensWindow_def)

lemma checkRateLimit_within:
  "m ip = Some e \<Longrightarrow> now - windowStart e \<le> RATE_LIMIT_WINDOW \<Longrightarrow>
   checkRateLimit ip now m =
     (if rl_count e \<ge> RATE_LIMIT_MAX then (False, m)
      else (True, m(ip \<mapsto> e\<lparr>rl_count := rl_count e + 1\<rparr>)))"
  by (simp add: checkRateLimit_def)

lemma verdictsFor_within:
  "m ip = Some e \<Longrightarrow>
   \<forall>t \<in> set (map snd (filter (\<lambda>r. fst r = ip) rs)). t - windowStart e \<le> RATE_LIMIT_WINDOW \<Longrightarrow>
   verdictsFor ip rs m =
     map (\<lambda>j. rl_count e + j < RATE_LIMIT_MAX) [0..<length (filter (\<lambda>r. fst r = ip) rs)]"
proof (induction rs arbitrary: m e)
  case Nil
  then show ?case by simp
next
  case (Cons r rs)
  obtain a now where r: "r = (a, now)" by (cases r)
  show ?case
  proof (cases "a = ip")
    case False
    have keep: "snd (checkRateLimit a now m) ip = Some e"
      using False Cons.prems(1) by (simp add: checkRateLimit_other)
    have "verdictsFor ip (r # rs) m = verdictsFor ip rs (snd (checkRateLimit a now m))"
      using False r by (simp split: prod.splits)
    also have "\<dots> = map (\<lambda>j. rl_count e + j < RATE_LIMIT_MAX)
                       [0..<length (filter (\<lambda>r. fst r = ip) rs)]"
      using Cons.IH [of "snd (checkRateLimit a now m)" e] keep Cons.prems(2) by simp
    finally show ?thesis using False r by simp
  next
    case True
    have win: "now - windowStart e \<le> RATE_LIMIT_WINDOW"
      using True r Cons.prems(2) by simp
    have rest: "\<forall>t \<in> set (map snd (filter (\<lambda>r. fst r = ip) rs)). t - windowStart e \<le> RATE_LIMIT_WINDOW"
      using Cons.prems(2) by simp
    let ?n = "length (filter (\<lambda>r. fst r = ip) rs)"
    show ?thesis
    proof (cases "rl_count e \<ge> RATE_LIMIT_MAX")
      case full: True
      have "verdictsFor ip (r # rs) m = False # verdictsFor ip rs m"
        using True r full checkRateLimit_within [of m ip e now] Cons.prems(1) win by simp
      also have "verdictsFor ip rs m = map (\<lambda>j. rl_count e + j < RATE_LIMIT_MAX) [0..<?n]"
        using Cons.IH [of m e] Cons.prems(1) rest by blast
      also have "False # map (\<lambda>j. rl_count e + j < RATE_LIMIT_MAX) [0..<?n] =
                 map (\<lambda>j. rl_count e + j < RATE_LIMIT_MAX) [0..<Suc ?n]"
        using full by (simp add: map_upt_Suc del: upt_Suc)
      finally show ?thesis using True r by simp
    next
      case room: False
      let ?e' = "e\<lparr>rl_count := rl_count e + 1\<rparr>"
      let ?m' = "m(ip \<mapsto> ?e')"
      have m': "?m' ip = Some ?e'" by simp
      have rest': "\<forall>t \<in> set (map snd (filter (\<lambda>r. fst r = ip) rs)). t - windowStart ?e' \<le> RATE_LIMIT_WINDOW"
        using rest by simp
      have "verdictsFor ip (r # rs) m = True # verdictsFor ip rs ?m'"
        using True r room checkRateLimit_within [of m ip e now] Cons.prems(1) win by simp
      also have "verdictsFor ip rs ?m' = map (\<lambda>j. rl_count ?e' + j < RATE_LIMIT_MAX) [0..<?n]"
        using Cons.IH [of ?m' ?e'] m' rest' by blast
      also have "True # map (\<lambda>j. rl_count ?e' + j < RATE_LIMIT_MAX) [0..<?n] =
                 map (\<lambda>j. rl_count e + j < RATE_LIMIT_MAX) [0..<Suc ?n]"
        using room by (simp add: map_upt_Suc del: upt_Suc)
      finally show ?thesis using True r by simp
    qed
  qed
qed

text \<open>
  C6. Take any source address whose request at \<open>t1\<close> opens a window, followed by five
  more requests of that address no later than 60 seconds after \<open>t1\<close>, with requests of
  other addresses anywhere in between. The first five of the six are admitted and the
  sixth is denied. And whenever the stored window of an address is older than the window
  length, its next request is admitted and stored as a fresh window with count 1.
\<close>

theorem rate_limit_window:
  assumes first: "opensWindow m ip t1"
    and times: "map snd (filter (\<lambda>r. fst r = ip) rs) = [t2, t3, t4, t5, t6]"
    and within: "\<forall>t \<in> {t2, t3, t4, t5, t6}. t - t1 \<le> RATE_LIMIT_WINDOW"
  shows "verdictsFor ip ((ip, t1) # rs) m = [True, True, True, True, True, False] \<and>
         (\<forall>m' e now. m' ip = Some e \<and> now - windowStart e > RATE_LIMIT_WINDOW \<longrightarrow>
            checkRateLimit ip now m' = (True, m'(ip \<mapsto> \<lparr>windowStart = now, rl_count = 1\<rparr>)))"
proof
  let ?e = "\<lparr>windowStart = t1, rl_count = 1\<rparr>"
  let ?m = "m(ip \<mapsto> ?e)"
  have len: "length (filter (\<lambda>r. fst r = ip) rs) = 5"
    using arg_cong [OF times, of length] by simp
  have "verdictsFor ip ((ip, t1) # rs) m = True # verdictsFor ip rs ?m"
    using checkRateLimit_open [OF first] by simp
  also have "verdictsFor ip rs ?m = map (\<lambda>j. rl_count ?e + j < RATE_LIMIT_MAX) [0..<5]"
    using verdictsFor_within [of ?m ip ?e rs] times within len by simp
  also have "\<dots> = [True, True, True, True, False]"
    by (simp add: RATE_LIMIT_MAX_def upt_conv_Cons)
  finally show "verdictsFor ip ((ip, t1) # rs) m = [True, True, True, True, True, False]" .
next
  show "\<forall>m' e now. m' ip = Some e \<and> now - windowStart e > RATE_LIMIT_WINDOW \<longrightarrow>
            checkRateLimit ip now m' = (True, m'(ip \<mapsto> \<lparr>windowStart = now, rl_count = 1\<rparr>))"
    by (simp add: checkRateLimit_def)
qed

theorem rate_limit_window_witness:
  "opensWindow Map.empty ''10.0.0.1'' 0 \<and>
   verdictsFor ''10.0.0.1''
     [(''10.0.0.1'', 0), (''10.0.0.1'', 1000), (''10.0.0.2'', 1500), (''10.0.0.1'', 2000),
      (''10.0.0.1'', 3000), (''10.0.0.1'', 59000), (''10.0.0.1'', 60000)] Map.empty =
     [True, True, True, True, True, False]"
  using rate_limit_window [of Map.empty "''10.0.0.1''" 0
      "[(''10.0.0.1'', 1000), (''10.0.0.2'', 1500), (''10.0.0.1'', 2000),
        (''10.0.0.1'', 3000), (''10.0.0.1'', 59000), (''10.0.0.1'', 60000)]"
      1000 2000 3000 59000 60000]
  by (simp add: opensWindow_def RATE_LIMIT_WINDOW_def)

section \<open>Leaderboard update\<close>

lemma isFinite_iff: "isFinite n \<longleftrightarrow> (\<exists>q. n = Fin q)"
  by (cases n) simp_all

lemma compareFn_positive:
  assumes "finiteKeys x" "finiteKeys y"
  shows "js_gt (compareFn x y) (Fin 0) \<longleftrightarrow> \<not> ranksNoLater x y"
proof -
  obtain sx tx sy ty where k: "e_score x = Fin sx" "e_timestamp x = Fin tx"
      "e_score y = Fin sy" "e_timestamp y = Fin ty"
    using assms by (auto simp: finiteKeys_def isFinite_iff)
  show ?thesis
    by (auto simp: compareFn_def ranksNoLater_def k js_gt_def js_sub_def js_strict_neq_def)
qed

lemma ranksNoLater_total:
  "finiteKeys x \<Longrightarrow> finiteKeys y \<Longrightarrow> ranksNoLater x y \<or> ranksNoLater y x"
  by (auto simp: finiteKeys_def isFinite_iff ranksNoLater_def js_gt_def)

lemma ranksNoLater_trans:
  "finiteKeys x \<Longrightarrow> finiteKeys y \<Longrightarrow> finiteKeys z \<Longrightarrow>
   ranksNoLater x y \<Longrightarrow> ranksNoLater y z \<Longrightarrow> ranksNoLater x z"
  by (auto simp: finiteKeys_def isFinite_iff ranksNoLater_def js_gt_def)

lemma set_insert_sorted: "set (insert_sorted cmp x ys) = insert x (set ys)"
  by (induction ys) auto

lemma mset_insert_sorted: "mset (insert_sorted cmp x ys) = add_mset x (mset ys)"
  by (induction ys) auto

lemma mset_array_sort: "mset (array_sort cmp xs) = mset xs"
  by (induction xs) (simp_all add: array_sort_def mset_insert_sorted)

lemma set_array_sort: "set (array_sort cmp xs) = set xs"
  using mset_array_sort [of cmp xs] by (metis set_mset_mset)

lemma sorted_insert_sorted:
  assumes "finiteKeys x" "\<forall>y \<in> set ys. finiteKeys y" "sorted_wrt ranksNoLater ys"
  shows "sorted_wrt ranksNoLater (insert_sorted compareFn x ys)"
  using assms
proof (induction ys)
  case Nil
  then show ?case by simp
next
  case (Cons y ys)
  show ?case
  proof (cases "js_gt (compareFn x y) (Fin 0)")
    case True
    then have yx: "ranksNoLater y x"
      using Cons.prems compareFn_positive [of x y] ranksNoLater_total [of x y] by auto
    have "sorted_wrt ranksNoLater (insert_sorted compareFn x ys)"
      using Cons by simp
    then show ?thesis
      using True yx Cons.prems by (auto simp: set_insert_sorted)
  next
    case False
    then have xy: "ranksNoLater x y"
      using Cons.prems compareFn_positive [of x y] by auto
    have "\<forall>z \<in> set ys. ranksNoLater x z"
    proof
      fix z assume z: "z \<in> set ys"
      then have "ranksNoLater y z" using Cons.prems by auto
      then show "ranksNoLater x z"
        using ranksNoLater_trans [of x y z] xy z Cons.prems by auto
    qed
    then show ?thesis
      using False xy Cons.prems by auto
  qed
qed

lemma sorted_array_sort:
  "\<forall>y \<in> set xs. finiteKeys y \<Longrightarrow> sorted_wrt ranksNoLater (array_sort compareFn xs)"
proof (induction xs)
  case Nil
  then show ?case by (simp add: array_sort_def)
next
  case (Cons x xs)
  have "sorted_wrt ranksNoLater (insert_sorted compareFn x (array_sort compareFn xs))"
    using Cons by (intro sorted_insert_sorted) (auto simp: set_array_sort)
  then show ?case by (simp add: array_sort_def)
qed

text \<open>
  A sorted list with one entry pushed: the sort moves the new entry up and leaves the
  order of the others as it was.
\<close>

lemma array_sort_pushed:
  assumes "finiteKeys new" "\<forall>y \<in> set stored. finiteKeys y" "sorted_wrt ranksNoLater stored"
  shows "\<exists>before after. stored = before @ after \<and>
           array_sort compareFn (stored @ [new]) = before @ new # after"
  using assms
proof (induction stored)
  case Nil
  then show ?case by (simp add: array_sort_def)
next
  case (Cons y ys)
  then obtain before after where
    split: "ys = before @ after" and
    sorted: "array_sort compareFn (ys @ [new]) = before @ new # after"
    by auto
  have step: "array_sort compareFn ((y # ys) @ [new]) =
              insert_sorted compareFn y (before @ new # after)"
    using sorted by (simp add: array_sort_def)
  have y_ys: "\<forall>z \<in> set ys. ranksNoLater y z" using Cons.prems by simp
  show ?case
  proof (cases "ranksNoLater y new")
    case True
    have "\<not> js_gt (compareFn y (hd (before @ new # after))) (Fin 0)"
      using True y_ys split Cons.prems compareFn_positive [of y "hd (before @ new # after)"]
      by (cases before) auto
    then have "insert_sorted compareFn y (before @ new # after) = y # before @ new # after"
      by (cases before) auto
    then have "y # ys = (y # before) @ after \<and>
               array_sort compareFn ((y # ys) @ [new]) = (y # before) @ new # after"
      using step split by simp
    then show ?thesis by blast
  next
    case False
    have "before = []"
    proof (cases before)
      case Nil
      then show ?thesis .
    next
      case (Cons b bs)
      have pre: "sorted_wrt ranksNoLater (before @ new # after)"
        using sorted sorted_array_sort [of "ys @ [new]"] Cons.prems \<open>finiteKeys new\<close>
          \<open>\<forall>y\<in>set (y # ys). finiteKeys y\<close> by auto
      have "ranksNoLater b new" using pre Cons by auto
      moreover have "ranksNoLater y b" using y_ys split Cons by auto
      ultimately have "ranksNoLater y new"
        using ranksNoLater_trans [of y b new] \<open>\<forall>y\<in>set (y # ys). finiteKeys y\<close>
          \<open>finiteKeys new\<close> split Cons by auto
      then show ?thesis using False by simp
    qed
    then have ys: "ys = after" and st: "array_sort compareFn ((y # ys) @ [new]) =
        insert_sorted compareFn y (new # after)"
      using split step by simp_all
    have gt: "js_gt (compareFn y new) (Fin 0)"
      using False Cons.prems compareFn_positive [of y new] by auto
    have "insert_sorted compareFn y after = y # after"
    proof (cases after)
      case Nil
      then show ?thesis by simp
    next
      case (Cons a as)
      then have "ranksNoLater y a" using y_ys ys by auto
      then have "\<not> js_gt (compareFn y a) (Fin 0)"
        using compareFn_positive [of y a] \<open>\<forall>y\<in>set (y # ys). finiteKeys y\<close> ys Cons by auto
      then show ?thesis using Cons by simp
    qed
    then have "y # ys = [] @ (y # after) \<and>
               array_sort compareFn ((y # ys) @ [new]) = [] @ new # (y # after)"
      using st gt ys by simp
    then show ?thesis by blast
  qed
qed

lemma findIndex_none: "\<forall>x \<in> set xs. \<not> P x \<Longrightarrow> findIndex P xs = - 1"
  by (induction xs) auto

lemma findIndex_first:
  "\<forall>x \<in> set before. \<not> P x \<Longrightarrow> P y \<Longrightarrow>
   findIndex P (before @ y # after) = int (length before)"
  by (induction before) (auto simp: Let_def)


lemma insertScore_spec:
  assumes fin_new: "finiteKeys new"
    and fin_stored: "\<forall>y \<in> set stored. finiteKeys y"
    and fresh: "\<forall>y \<in> set stored. e_id y \<noteq> e_id new"
  defines "full \<equiv> array_sort compareFn (stored @ [new])"
  shows "fst (insertScore new stored) = take 20 full"
    and "mset full = add_mset new (mset stored)"
    and "sorted_wrt ranksNoLater full"
    and "case snd (insertScore new stored) of
           Some r \<Rightarrow> 1 \<le> r \<and> r \<le> 20 \<and> nat r \<le> length (take 20 full) \<and>
                     take 20 full ! (nat r - 1) = new
         | None \<Rightarrow> new \<notin> set (take 20 full) \<and>
                   (sorted_wrt ranksNoLater stored \<and> length stored \<le> 20 \<longrightarrow>
                      take 20 full = stored)"
proof -
  let ?top = "take 20 full"
  let ?P = "\<lambda>s. e_id s = e_id new"
  show "fst (insertScore new stored) = ?top"
    by (simp add: insertScore_def full_def Let_def)
  show "mset full = add_mset new (mset stored)"
    by (simp add: full_def mset_array_sort)
  show "sorted_wrt ranksNoLater full"
    unfolding full_def using fin_new fin_stored by (intro sorted_array_sort) auto
  have rank: "snd (insertScore new stored) =
      (if findIndex ?P ?top + 1 > 0 \<and> findIndex ?P ?top + 1 \<le> 20
       then Some (findIndex ?P ?top + 1) else None)"
    by (simp add: insertScore_def full_def Let_def)
  have set_full: "set full = insert new (set stored)"
    by (simp add: full_def set_array_sort)
  have only_new: "\<And>x. x \<in> set ?top \<Longrightarrow> ?P x \<Longrightarrow> x = new"
    using set_full fresh by (auto dest: in_set_takeD)
  show "case snd (insertScore new stored) of
           Some r \<Rightarrow> 1 \<le> r \<and> r \<le> 20 \<and> nat r \<le> length ?top \<and> ?top ! (nat r - 1) = new
         | None \<Rightarrow> new \<notin> set ?top \<and>
                   (sorted_wrt ranksNoLater stored \<and> length stored \<le> 20 \<longrightarrow> ?top = stored)"
  proof (cases "new \<in> set ?top")
    case True
    then obtain before after where top: "?top = before @ new # after" and nb: "new \<notin> set before"
      by (meson split_list_first)
    have "\<forall>x \<in> set before. \<not> ?P x"
    proof
      fix x assume x: "x \<in> set before"
      then have "x \<in> set ?top" using top by simp
      then show "\<not> ?P x" using only_new [of x] nb x by auto
    qed
    then have idx: "findIndex ?P ?top = int (length before)"
      using top findIndex_first [of before ?P new after] by simp
    have len: "length before < length ?top" using top by simp
    have "length ?top \<le> 20" by simp
    then have "snd (insertScore new stored) = Some (int (length before) + 1)"
      using rank idx len by simp
    moreover have "?top ! length before = new" using top by simp
    moreover have "nat (int (length before) + 1) = Suc (length before)" by simp
    ultimately show ?thesis using len by (simp del: of_nat_Suc)
  next
    case False
    then have "\<forall>x \<in> set ?top. \<not> ?P x" using only_new by blast
    then have "findIndex ?P ?top = - 1" by (rule findIndex_none)
    then have none: "snd (insertScore new stored) = None" using rank by simp
    have "?top = stored" if srt: "sorted_wrt ranksNoLater stored" and le: "length stored \<le> 20"
    proof -
      obtain before after where st: "stored = before @ after"
          and fl: "full = before @ new # after"
        using array_sort_pushed [OF fin_new fin_stored srt] unfolding full_def by blast
      have "20 \<le> length before"
      proof (rule ccontr)
        assume "\<not> 20 \<le> length before"
        then have "new \<in> set (take 20 (before @ new # after))"
          by (simp add: take_Cons' )
        then show False using False fl by simp
      qed
      moreover have "length before + length after \<le> 20" using le st by simp
      ultimately have "length after \<le> 0 \<and> length before = 20" by linarith
      then have "after = []" and "length before = 20" by simp_all
      then show ?thesis using fl st by simp
    qed
    then show ?thesis using none False by simp
  qed
qed

lemma validated_fields:
  assumes "validateScore now data = Inr Valid"
  shows "\<exists>sc ts. get_prop data ''score'' = JNum (Fin sc) \<and> get_prop data ''timestamp'' = JNum ts \<and>
           (ts = NaN \<or> isFinite ts)"
proof -
  from assms have nn: "data \<noteq> JNull" "data \<noteq> JUndefined"
    by (auto simp: validateScore_def)
  from assms nn obtain sc where sc: "get_prop data ''score'' = JNum sc"
    by (cases "get_prop data ''score''") (simp_all add: validateScore_def)
  from assms nn sc have rem: "\<not> js_strict_neq (js_rem sc (Fin 10)) (Fin 0)"
    by (simp add: validateScore_def Let_def split: if_splits)
  then obtain q where q: "sc = Fin q"
    by (cases sc) (simp_all add: js_strict_neq_def)
  from assms nn sc obtain ts where ts: "get_prop data ''timestamp'' = JNum ts"
    by (cases "get_prop data ''timestamp''") (simp_all add: validateScore_def Let_def split: if_splits)
  from assms nn sc ts have "\<not> js_gt (js_abs (js_sub (Fin (of_int now)) ts)) (Fin 600000)"
    by (simp add: validateScore_def Let_def split: if_splits)
  then have "ts = NaN \<or> isFinite ts"
    by (cases ts) (simp_all add: js_gt_def js_sub_def)
  then show ?thesis using sc q ts by simp
qed



lemma submitScore_accepted:
  assumes post: "http_method request = ''POST''"
    and admitted: "fst (checkRateLimit (clientIp request) now rl)"
    and parsed: "json request = Returns data"
    and valid: "validateScore now data = Inr Valid"
    and sc: "get_prop data ''score'' = JNum sc"
    and ts: "get_prop data ''timestamp'' = JNum ts"
    and read: "fetchLeaderboard 3 gets 0 now = Returns board"
    and saved: "saveLeaderboard 3 sets 0 = Returns ()"
    and ins: "insertScore
               \<lparr>e_id = newId, e_score = sc,
                e_difficulty = get_prop (get_prop data ''gameData'') ''difficulty'',
                e_snakeLength = get_prop (get_prop data ''gameData'') ''snakeLength'',
                e_gameTime = get_prop (get_prop data ''gameData'') ''gameTime'',
                e_timestamp = ts\<rparr> (scores board) = (kept, rank)"
  shows "submitScore request now newId gets sets rl =
           (\<lparr>status = 200,
             body = SubmitSuccess rank
                      (case rank of Some r \<Rightarrow> MadeLeaderboard r | None \<Rightarrow> Submitted)\<rparr>,
            snd (checkRateLimit (clientIp request) now rl),
            Some (board\<lparr>scores := kept, lastUpdated := now\<rparr>))"
proof -
  obtain rl' where adm: "checkRateLimit (clientIp request) now rl = (True, rl')"
    using admitted by (cases "checkRateLimit (clientIp request) now rl") auto
  show ?thesis
    unfolding submitScore_def
    by (simp add: post parsed valid read sc ts saved ins adm)
qed

text \<open>
  C1. For a POST that passes the rate limiter and the validator, with a readable store and
  a successful write, the handler answers 200 and writes the first 20 entries of \<open>full\<close>,
  where \<open>full\<close> holds exactly the stored entries and the new one, sorted by score
  descending and then timestamp ascending (so that of two entries with equal score the
  earlier timestamp stands first). The rank returned is the 1-based position of the new
  entry among those 20, or \<open>null\<close> when it is not among them; in that case a stored
  list that was sorted and had at most 20 entries is written back unchanged. The stored
  entries have finite keys and ids other than the new one.
\<close>

theorem submit_score_ranks:
  assumes post: "http_method request = ''POST''"
    and admitted: "fst (checkRateLimit (clientIp request) now rl)"
    and parsed: "json request = Returns data"
    and valid: "validateScore now data = Inr Valid"
    and no_nan: "get_prop data ''timestamp'' \<noteq> JNum NaN"
    and read: "fetchLeaderboard 3 gets 0 now = Returns board"
    and stored_finite: "\<forall>e \<in> set (scores board). finiteKeys e"
    and fresh: "\<forall>e \<in> set (scores board). e_id e \<noteq> newId"
    and saved: "saveLeaderboard 3 sets 0 = Returns ()"
  shows "\<exists>newEntry full rank rl'.
           submitScore request now newId gets sets rl =
             (\<lparr>status = 200,
               body = SubmitSuccess rank
                        (case rank of Some r \<Rightarrow> MadeLeaderboard r | None \<Rightarrow> Submitted)\<rparr>,
              rl', Some (board\<lparr>scores := take 20 full, lastUpdated := now\<rparr>)) \<and>
           e_id newEntry = newId \<and>
           JNum (e_score newEntry) = get_prop data ''score'' \<and>
           JNum (e_timestamp newEntry) = get_prop data ''timestamp'' \<and>
           mset full = add_mset newEntry (mset (scores board)) \<and>
           sorted_wrt ranksNoLater full \<and>
           (case rank of
              Some r \<Rightarrow> 1 \<le> r \<and> r \<le> 20 \<and> nat r \<le> length (take 20 full) \<and>
                        take 20 full ! (nat r - 1) = newEntry
            | None \<Rightarrow> newEntry \<notin> set (take 20 full) \<and>
                      (sorted_wrt ranksNoLater (scores board) \<and> length (scores board) \<le> 20 \<longrightarrow>
                         take 20 full = scores board))"
proof -
  obtain sc ts where sc: "get_prop data ''score'' = JNum (Fin sc)"
      and ts: "get_prop data ''timestamp'' = JNum ts" and fin_ts: "isFinite ts"
    using validated_fields [OF valid] no_nan by auto
  define newEntry where "newEntry =
     \<lparr>e_id = newId, e_score = Fin sc,
      e_difficulty = get_prop (get_prop data ''gameData'') ''difficulty'',
      e_snakeLength = get_prop (get_prop data ''gameData'') ''snakeLength'',
      e_gameTime = get_prop (get_prop data ''gameData'') ''gameTime'',
      e_timestamp = ts\<rparr>"
  define full where "full = array_sort compareFn (scores board @ [newEntry])"
  define rank where "rank = snd (insertScore newEntry (scores board))"
  have fin_new: "finiteKeys newEntry"
    using fin_ts by (simp add: newEntry_def finiteKeys_def)
  have fresh': "\<forall>y \<in> set (scores board). e_id y \<noteq> e_id newEntry"
    using fresh by (simp add: newEntry_def)
  note spec = insertScore_spec [OF fin_new stored_finite fresh', folded full_def rank_def]
  have ins: "insertScore newEntry (scores board) = (take 20 full, rank)"
    using spec(1) by (simp add: rank_def prod_eq_iff)
  note run = submitScore_accepted [OF post admitted parsed valid sc ts read saved
      ins [unfolded newEntry_def]]
  show ?thesis
    using run spec(2,3,4) sc ts
    by (intro exI [of _ newEntry] exI [of _ full] exI [of _ rank]
        exI [of _ "snd (checkRateLimit (clientIp request) now rl)"])
      (simp add: newEntry_def)
qed

lemma example_valid: "validateScore 1000000 (submission 120 1000000 ''EASY'' 15 7000) = Inr Valid"
  by (simp add: validateScore_def submission_def validDifficulties_def js_strict_neq_def
      js_gt_def js_sub_def trunc_def)

lemma fetch_storeHolds: "fetchLeaderboard 3 (storeHolds (Some b)) 0 now = Returns b"
  by (simp add: numeral_3_eq_3 storeHolds_def)

lemma save_storeAccepts: "saveLeaderboard 3 storeAccepts 0 = Returns ()"
  by (simp add: numeral_3_eq_3 storeAccepts_def)

theorem submit_score_ranks_witness:
  "validateScore 1000000 (submission 120 1000000 ''EASY'' 15 7000) = Inr Valid \<and>
   fst (submitScore (postFrom ''10.0.0.1'' (submission 120 1000000 ''EASY'' 15 7000)) 1000000 ''new''
          (storeHolds (Some exampleBoard)) storeAccepts Map.empty) =
     \<lparr>status = 200, body = SubmitSuccess (Some 3) (MadeLeaderboard 3)\<rparr>"
proof -
  let ?req = "postFrom ''10.0.0.1'' (submission 120 1000000 ''EASY'' 15 7000)"
  have h1: "http_method ?req = ''POST''" by (simp add: postFrom_def)
  have h2: "fst (checkRateLimit (clientIp ?req) 1000000 Map.empty)"
    by (simp add: checkRateLimit_def)
  have h3: "json ?req = Returns (submission 120 1000000 ''EASY'' 15 7000)"
    by (simp add: postFrom_def)
  have h5: "get_prop (submission 120 1000000 ''EASY'' 15 7000) ''timestamp'' \<noteq> JNum NaN"
    by (simp add: submission_def)
  have h7: "\<forall>e \<in> set (scores exampleBoard). finiteKeys e"
    by (simp add: exampleBoard_def finiteKeys_def)
  have h8: "\<forall>e \<in> set (scores exampleBoard). e_id e \<noteq> ''new''"
    by (simp add: exampleBoard_def)
  from submit_score_ranks [OF h1 h2 h3 example_valid h5 fetch_storeHolds h7 h8 save_storeAccepts]
  obtain full rank rl' where
    run: "submitScore ?req 1000000 ''new'' (storeHolds (Some exampleBoard)) storeAccepts Map.empty =
           (\<lparr>status = 200,
             body = SubmitSuccess rank
                      (case rank of Some r \<Rightarrow> MadeLeaderboard r | None \<Rightarrow> Submitted)\<rparr>,
            rl', Some (exampleBoard\<lparr>scores := take 20 full, lastUpdated := 1000000\<rparr>))"
    by blast
  have "fst (submitScore ?req 1000000 ''new'' (storeHolds (Some exampleBoard)) storeAccepts Map.empty) =
        \<lparr>status = 200, body = SubmitSuccess (Some 3) (MadeLeaderboard 3)\<rparr>"
    by code_simp
  then show ?thesis using example_valid by simp
qed

section \<open>Validator\<close>

lemma validateScore_returns:
  "data \<noteq> JNull \<Longrightarrow> data \<noteq> JUndefined \<Longrightarrow> \<exists>v. validateScore now data = Inr v"
  by (simp add: validateScore_def Let_def split: jsval.splits)

lemma validateScore_accepts_only:
  assumes "validateScore now data = Inr Valid"
  shows "\<exists>sc ts kvs sl gt.
           get_prop data ''score'' = JNum sc \<and>
           get_prop data ''timestamp'' = JNum ts \<and>
           get_prop data ''gameData'' = JObj kvs \<and>
           get_prop (JObj kvs) ''snakeLength'' = JNum sl \<and>
           get_prop (JObj kvs) ''gameTime'' = JNum gt \<and>
           \<not> js_gt sc (Fin 10000)"
proof -
  from assms have nn: "data \<noteq> JNull" "data \<noteq> JUndefined"
    by (auto simp: validateScore_def)
  from assms nn obtain sc where sc: "get_prop data ''score'' = JNum sc"
    by (cases "get_prop data ''score''") (simp_all add: validateScore_def)
  from assms nn sc have range: "\<not> js_gt sc (Fin 10000)"
    by (simp add: validateScore_def Let_def split: if_splits)
  from assms nn sc obtain ts where ts: "get_prop data ''timestamp'' = JNum ts"
    by (cases "get_prop data ''timestamp''")
      (simp_all add: validateScore_def Let_def split: if_splits)
  from assms nn sc ts have gd: "truthy (get_prop data ''gameData'')"
      "typeof (get_prop data ''gameData'') = ''object''"
      "get_prop (get_prop data ''gameData'') ''difficulty'' \<in> set validDifficulties"
    by (simp_all add: validateScore_def Let_def split: if_splits)
  then obtain kvs where kvs: "get_prop data ''gameData'' = JObj kvs"
    by (cases "get_prop data ''gameData''") (simp_all add: validDifficulties_def)
  from assms nn sc ts gd kvs obtain sl where sl: "get_prop (JObj kvs) ''snakeLength'' = JNum sl"
    by (cases "get_prop (JObj kvs) ''snakeLength''")
      (simp_all add: validateScore_def Let_def split: if_splits del: get_prop.simps)
  from assms nn sc ts gd kvs sl obtain gt where gt: "get_prop (JObj kvs) ''gameTime'' = JNum gt"
    by (cases "get_prop (JObj kvs) ''gameTime''")
      (simp_all add: validateScore_def Let_def split: if_splits del: get_prop.simps)
  show ?thesis using sc ts kvs sl gt range by blast
qed




text \<open>
  C2, as stated, fails: a score of 5000 exceeds the theoretical maximum of 4000 (400 cells
  at 10 points) and is accepted when length and time are consistent with it.
\<close>

theorem score_above_grid_maximum_counterexample:
  "of_int theoreticalMaxScore < (5000 :: rat) \<and>
   validateScore 1000000 (submission 5000 1000000 ''EASY'' 503 2500000) = Inr Valid"
  by (simp add: theoreticalMaxScore_def GRID_SIZE_def POINTS_PER_FOOD_def validateScore_def
      submission_def validDifficulties_def js_strict_neq_def js_gt_def js_sub_def trunc_def)

lemma never_out_of_range:
  assumes "get_prop data ''score'' = JNum (Fin q)" and "0 \<le> q" and "q \<le> 10000"
  shows "validateScore now data \<noteq> Inr (Invalid ''Score out of range'')"
proof -
  have nn: "data \<noteq> JNull" "data \<noteq> JUndefined"
    using assms(1) by auto
  have range: "\<not> (js_lt (Fin q) (Fin 0) \<or> js_gt (Fin q) (Fin 10000))"
    using assms(2,3) by (simp add: js_gt_def)
  show ?thesis
    using nn assms(1) range
    by (simp add: validateScore_def Let_def split: jsval.splits)
qed

lemma consistent_submission_accepted:
  assumes "0 \<le> n" and "n \<le> 1000"
  shows "validateScore now
           (submission (10 * of_int n) (of_int now) ''EASY'' (of_int n + 3) (500 * of_int n)) =
         Inr Valid"
proof -
  have lo: "\<not> (of_int n :: rat) < 0" and hi: "\<not> (1000 :: rat) < of_int n"
    using assms by simp_all
  have rem: "js_rem (Fin (10 * of_int n)) (Fin 10) = Fin 0"
    by (simp add: trunc_def)
  have dv: "js_div (Fin (10 * of_int n)) (Fin 10) = Fin (of_int n)"
    by simp
  show ?thesis
    using lo hi
    by (simp add: validateScore_def submission_def validDifficulties_def rem dv
        js_strict_neq_def js_gt_def js_sub_def del: js_rem.simps js_div.simps)
qed

text \<open>
  C2, amended. The bound written in \<open>validateScore\<close> is 10000, not the theoretical maximum.
  Every submission whose score exceeds 10000 gets a rejection verdict. No score from 0 to
  10000 is rejected as out of range, and every multiple of 10 from 0 to 10000, those above
  4000 included, is accepted in a submission whose timestamp, difficulty, snake length and
  game time are consistent with it.
\<close>

theorem score_bound_is_10000:
  "(get_prop data ''score'' = JNum sc \<and> js_gt sc (Fin 10000) \<longrightarrow>
      (\<exists>err. validateScore now data = Inr (Invalid err))) \<and>
   (get_prop data' ''score'' = JNum (Fin q) \<and> 0 \<le> q \<and> q \<le> 10000 \<longrightarrow>
      validateScore now data' \<noteq> Inr (Invalid ''Score out of range'')) \<and>
   (0 \<le> n \<and> n \<le> 1000 \<longrightarrow>
      validateScore now
        (submission (10 * of_int n) (of_int now) ''EASY'' (of_int n + 3) (500 * of_int n)) =
      Inr Valid)"
proof (intro conjI impI)
  assume a: "get_prop data ''score'' = JNum sc \<and> js_gt sc (Fin 10000)"
  then have "data \<noteq> JNull" and "data \<noteq> JUndefined" by auto
  then obtain v where v: "validateScore now data = Inr v"
    using validateScore_returns by blast
  have "v \<noteq> Valid"
  proof
    assume "v = Valid"
    with v have "validateScore now data = Inr Valid" by simp
    from validateScore_accepts_only [OF this] a show False by auto
  qed
  then show "\<exists>err. validateScore now data = Inr (Invalid err)" using v by (cases v) auto
next
  assume "get_prop data' ''score'' = JNum (Fin q) \<and> 0 \<le> q \<and> q \<le> 10000"
  then show "validateScore now data' \<noteq> Inr (Invalid ''Score out of range'')"
    using never_out_of_range by blast
next
  assume "0 \<le> n \<and> n \<le> 1000"
  then show "validateScore now
        (submission (10 * of_int n) (of_int now) ''EASY'' (of_int n + 3) (500 * of_int n)) =
      Inr Valid"
    using consistent_submission_accepted by blast
qed

theorem score_bound_is_10000_witness:
  "js_gt (Fin 10010) (Fin 10000) \<and>
   validateScore 1000000 (submission 10010 1000000 ''EASY'' 1004 5005000) =
     Inr (Invalid ''Score out of range'') \<and>
   get_prop (submission 10000 1000000 ''HARD'' 1001 600000) ''score'' = JNum (Fin 10000) \<and>
   validateScore 1000000 (submission 10000 1000000 ''HARD'' 1001 600000) \<noteq>
     Inr (Invalid ''Score out of range'') \<and>
   validateScore 1000000 (submission 10000 1000000 ''EASY'' 1003 500000) = Inr Valid"
proof -
  have h1: "get_prop (submission 10010 1000000 ''EASY'' 1004 5005000) ''score'' = JNum (Fin 10010)"
    and h2: "get_prop (submission 10000 1000000 ''HARD'' 1001 600000) ''score'' = JNum (Fin 10000)"
    by (simp_all add: submission_def)
  have g: "js_gt (Fin 10010) (Fin 10000)" by (simp add: js_gt_def)
  note inst = score_bound_is_10000 [of "submission 10010 1000000 ''EASY'' 1004 5005000" "Fin 10010"
      1000000 "submission 10000 1000000 ''HARD'' 1001 600000" 10000 1000]
  have out: "validateScore 1000000 (submission 10010 1000000 ''EASY'' 1004 5005000) =
     Inr (Invalid ''Score out of range'')"
    by (simp add: validateScore_def submission_def js_strict_neq_def js_gt_def trunc_def)
  from inst h1 h2 g show ?thesis using out by simp
qed

section \<open>Empty store\<close>

lemma fetch_empty_store:
  assumes "\<forall>k. gets k = Throws \<or> gets k = Returns None"
    and "\<exists>k<3. gets k = Returns None"
  shows "fetchLeaderboard 3 gets 0 now = Returns \<lparr>version = 1, lastUpdated = now, scores = []\<rparr>"
proof -
  from assms(2) have some: "gets 0 = Returns None \<or> gets 1 = Returns None \<or> gets 2 = Returns None"
    by (auto simp: less_Suc_eq numeral_3_eq_3 numeral_2_eq_2)
  have each: "gets 0 = Throws \<or> gets 0 = Returns None" "gets 1 = Throws \<or> gets 1 = Returns None"
    using assms(1) by auto
  show ?thesis
    using some each by (auto simp: numeral_3_eq_3 numeral_2_eq_2)
qed

lemma insertScore_empty: "insertScore e [] = ([e], Some 1)"
  by (simp add: insertScore_def array_sort_def)

text \<open>
  C10. The store holds no record: every read that answers returns \<open>null\<close>, and one of
  the three attempts answers. Then the get-leaderboard handler answers 200 with
  \<open>success: true\<close> and an empty list of scores, and the submit-score handler, for a POST
  that passes the rate limiter and the validator and whose write succeeds, inserts into
  the empty version-1 snapshot: the answer is 200 with rank 1 and the record written holds
  exactly the new entry.
\<close>

theorem empty_store_is_empty_snapshot:
  assumes absent: "\<forall>k. gets k = Throws \<or> gets k = Returns None"
    and answers: "\<exists>k<3. gets k = Returns None"
  shows "(cacheHoldsNoScores c \<longrightarrow>
            (\<exists>lastUpd c'. getLeaderboard ''GET'' now gets c =
               (\<lparr>status = 200, body = ScoresSuccess [] lastUpd\<rparr>, c'))) \<and>
         (http_method request = ''POST'' \<and> fst (checkRateLimit (clientIp request) now rl) \<and>
          json request = Returns data \<and> validateScore now data = Inr Valid \<and>
          saveLeaderboard 3 sets 0 = Returns () \<longrightarrow>
            (\<exists>newEntry rl'. submitScore request now newId gets sets rl =
               (\<lparr>status = 200, body = SubmitSuccess (Some 1) (MadeLeaderboard 1)\<rparr>, rl',
                Some \<lparr>version = 1, lastUpdated = now, scores = [newEntry]\<rparr>) \<and>
               e_id newEntry = newId \<and> JNum (e_score newEntry) = get_prop data ''score''))"
proof (intro conjI impI)
  note fetch = fetch_empty_store [OF absent answers, of now]
  show "\<exists>lastUpd c'. getLeaderboard ''GET'' now gets c =
               (\<lparr>status = 200, body = ScoresSuccess [] lastUpd\<rparr>, c')"
    if "cacheHoldsNoScores c"
    using that fetch by (auto simp: getLeaderboard_def cacheHoldsNoScores_def split: option.splits)
  show "\<exists>newEntry rl'. submitScore request now newId gets sets rl =
               (\<lparr>status = 200, body = SubmitSuccess (Some 1) (MadeLeaderboard 1)\<rparr>, rl',
                Some \<lparr>version = 1, lastUpdated = now, scores = [newEntry]\<rparr>) \<and>
               e_id newEntry = newId \<and> JNum (e_score newEntry) = get_prop data ''score''"
    if h: "http_method request = ''POST'' \<and> fst (checkRateLimit (clientIp request) now rl) \<and>
          json request = Returns data \<and> validateScore now data = Inr Valid \<and>
          saveLeaderboard 3 sets 0 = Returns ()"
  proof -
    obtain sc ts where sc: "get_prop data ''score'' = JNum (Fin sc)"
        and ts: "get_prop data ''timestamp'' = JNum ts"
      using validated_fields [of now data] h by auto
    have "submitScore request now newId gets sets rl =
           (\<lparr>status = 200, body = SubmitSuccess (Some 1) (MadeLeaderboard 1)\<rparr>,
            snd (checkRateLimit (clientIp request) now rl),
            Some \<lparr>version = 1, lastUpdated = now, scores =
              [\<lparr>e_id = newId, e_score = Fin sc,
                e_difficulty = get_prop (get_prop data ''gameData'') ''difficulty'',
                e_snakeLength = get_prop (get_prop data ''gameData'') ''snakeLength'',
                e_gameTime = get_prop (get_prop data ''gameData'') ''gameTime'',
                e_timestamp = ts\<rparr>]\<rparr>)"
      using submitScore_accepted [of request now rl data "Fin sc" ts gets
          "\<lparr>version = 1, lastUpdated = now, scores = []\<rparr>" sets newId _ "Some 1"] h sc ts fetch
      by (simp add: insertScore_empty)
    then show ?thesis using sc by auto
  qed
qed

theorem empty_store_is_empty_snapshot_witness:
  "cacheHoldsNoScores \<lparr>cachedData = None, cacheTimestamp = 0\<rparr> \<and>
   fst (getLeaderboard ''GET'' 1000000 (storeHolds None) \<lparr>cachedData = None, cacheTimestamp = 0\<rparr>) =
     \<lparr>status = 200, body = ScoresSuccess [] 1000000\<rparr> \<and>
   validateScore 1000000 (submission 120 1000000 ''EASY'' 15 7000) = Inr Valid \<and>
   fst (submitScore (postFrom ''10.0.0.1'' (submission 120 1000000 ''EASY'' 15 7000)) 1000000 ''new''
          (storeHolds None) storeAccepts Map.empty) =
     \<lparr>status = 200, body = SubmitSuccess (Some 1) (MadeLeaderboard 1)\<rparr>"
proof -
  have h1: "\<forall>k. storeHolds None k = Throws \<or> storeHolds None k = Returns None"
    by (simp add: storeHolds_def)
  have h2: "\<exists>k<3. storeHolds None k = Returns None"
    by (rule exI [of _ 0]) (simp add: storeHolds_def)
  note inst = empty_store_is_empty_snapshot [OF h1 h2,
      of "\<lparr>cachedData = None, cacheTimestamp = 0\<rparr>" 1000000
         "postFrom ''10.0.0.1'' (submission 120 1000000 ''EASY'' 15 7000)" Map.empty
         "submission 120 1000000 ''EASY'' 15 7000" storeAccepts "''new''"]
  have c: "cacheHoldsNoScores \<lparr>cachedData = None, cacheTimestamp = 0\<rparr>"
    by (simp add: cacheHoldsNoScores_def)
  have g: "fst (getLeaderboard ''GET'' 1000000 (storeHolds None) \<lparr>cachedData = None, cacheTimestamp = 0\<rparr>) =
     \<lparr>status = 200, body = ScoresSuccess [] 1000000\<rparr>"
    by (simp add: getLeaderboard_def storeHolds_def numeral_3_eq_3)
  have pre: "http_method (postFrom ''10.0.0.1'' (submission 120 1000000 ''EASY'' 15 7000)) = ''POST'' \<and>
      fst (checkRateLimit (clientIp (postFrom ''10.0.0.1'' (submission 120 1000000 ''EASY'' 15 7000)))
             1000000 Map.empty) \<and>
      json (postFrom ''10.0.0.1'' (submission 120 1000000 ''EASY'' 15 7000)) =
        Returns (submission 120 1000000 ''EASY'' 15 7000)"
    by (simp add: postFrom_def checkRateLimit_def)
  from inst pre example_valid save_storeAccepts
  have "fst (submitScore (postFrom ''10.0.0.1'' (submission 120 1000000 ''EASY'' 15 7000)) 1000000 ''new''
          (storeHolds None) storeAccepts Map.empty) =
     \<lparr>status = 200, body = SubmitSuccess (Some 1) (MadeLeaderboard 1)\<rparr>"
    by auto
  then show ?thesis using c g example_valid by simp
qed

section \<open>Food generation\<close>

lemma generate_loop_hit:
  "randomCell rnd i \<notin> set segments \<Longrightarrow>
   generate_loop rnd i segments = Some (randomCell rnd i, i + 2)"
  by (subst generate_loop.simps) simp

lemma generate_loop_miss:
  "randomCell rnd i \<in> set segments \<Longrightarrow>
   generate_loop rnd i segments = generate_loop rnd (i + 2) segments"
  by (subst generate_loop.simps) simp

lemma zero_cell: "randomCell zeroSource i = (0, 0)"
  by (simp add: randomCell_def zeroSource_def)

lemma half_cell: "randomCell halfSource i = (10, 10)"
  by (simp add: randomCell_def halfSource_def GRID_SIZE_def)

text \<open>Whatever the loop returns is the first draw that is not on the snake.\<close>

lemma generate_loop_sound:
  assumes "generate_loop rnd i segments = Some y"
  shows "fst y \<notin> set segments \<and>
         (\<exists>k. fst y = randomCell rnd (i + 2 * k) \<and> snd y = i + 2 * k + 2 \<and>
              (\<forall>k'<k. randomCell rnd (i + 2 * k') \<in> set segments))"
proof (rule generate_loop.raw_induct
    [where P = "\<lambda>rnd i segments y. fst y \<notin> set segments \<and>
         (\<exists>k. fst y = randomCell rnd (i + 2 * k) \<and> snd y = i + 2 * k + 2 \<and>
              (\<forall>k'<k. randomCell rnd (i + 2 * k') \<in> set segments))", OF _ assms], goal_cases)
  case (1 generate_loop rnd i segments y)
  show ?case
  proof (cases "randomCell rnd i \<in> set segments")
    case False
    then have "y = (randomCell rnd i, i + 2)" using 1(2) by simp
    then have "fst y = randomCell rnd (i + 2 * 0) \<and> snd y = i + 2 * 0 + 2 \<and>
               (\<forall>k'<0. randomCell rnd (i + 2 * k') \<in> set segments)"
      by simp
    moreover have "fst y \<notin> set segments"
      using False \<open>y = (randomCell rnd i, i + 2)\<close> by simp
    ultimately show ?thesis by blast
  next
    case True
    then have "generate_loop rnd (i + 2) segments = Some y" using 1(2) by simp
    from 1(1) [OF this] obtain k where
      free: "fst y \<notin> set segments" and
      k: "fst y = randomCell rnd (i + 2 + 2 * k)" "snd y = i + 2 + 2 * k + 2"
         "\<forall>k'<k. randomCell rnd (i + 2 + 2 * k') \<in> set segments"
      by blast
    have "\<forall>k'<Suc k. randomCell rnd (i + 2 * k') \<in> set segments"
    proof (intro allI impI)
      fix k' assume "k' < Suc k"
      show "randomCell rnd (i + 2 * k') \<in> set segments"
      proof (cases k')
        case 0
        then show ?thesis using True by simp
      next
        case (Suc m)
        then have "m < k" using \<open>k' < Suc k\<close> by simp
        then have hit: "randomCell rnd (i + 2 + 2 * m) \<in> set segments" using k(3) by blast
        have eq: "i + 2 * k' = i + 2 + 2 * m" using Suc by simp
        show ?thesis unfolding eq by (rule hit)
      qed
    qed
    moreover have eq: "i + 2 * Suc k = i + 2 + 2 * k" by simp
    have "fst y = randomCell rnd (i + 2 * Suc k)" "snd y = i + 2 * Suc k + 2"
      unfolding eq by (rule k(1), rule k(2))
    ultimately show ?thesis using free by blast
  qed
qed

text \<open>And the loop does return once a draw is off the snake.\<close>

lemma generate_loop_complete:
  "\<forall>k'<k. randomCell rnd (i + 2 * k') \<in> set segments \<Longrightarrow>
   randomCell rnd (i + 2 * k) \<notin> set segments \<Longrightarrow>
   generate_loop rnd i segments = Some (randomCell rnd (i + 2 * k), i + 2 * k + 2)"
proof (induction k arbitrary: i)
  case 0
  then show ?case by (simp add: generate_loop_hit)
next
  case (Suc k)
  have eq: "i + 2 * Suc k = i + 2 + 2 * k" by simp
  have "randomCell rnd (i + 2 * 0) \<in> set segments" using Suc.prems(1) by blast
  then have first: "randomCell rnd i \<in> set segments" by simp
  have misses: "\<forall>k'<k. randomCell rnd (i + 2 + 2 * k') \<in> set segments"
  proof (intro allI impI)
    fix k' assume "k' < k"
    then have "randomCell rnd (i + 2 * Suc k') \<in> set segments" using Suc.prems(1) by blast
    moreover have "i + 2 * Suc k' = i + 2 + 2 * k'" by simp
    ultimately show "randomCell rnd (i + 2 + 2 * k') \<in> set segments" by (simp only:)
  qed
  have free: "randomCell rnd (i + 2 + 2 * k) \<notin> set segments"
    using Suc.prems(2) unfolding eq .
  have "generate_loop rnd (i + 2) segments =
      Some (randomCell rnd (i + 2 + 2 * k), i + 2 + 2 * k + 2)"
    using misses free by (rule Suc.IH)
  then have "generate_loop rnd i segments =
      Some (randomCell rnd (i + 2 + 2 * k), i + 2 + 2 * k + 2)"
    using first by (simp only: generate_loop_miss)
  then show ?case unfolding eq .
qed

lemma generate_loop_returns:
  assumes "\<exists>k. randomCell rnd (i + 2 * k) \<notin> set segments"
  shows "\<exists>c j. generate_loop rnd i segments = Some (c, j) \<and> c \<notin> set segments"
proof -
  define k where "k = (LEAST k. randomCell rnd (i + 2 * k) \<notin> set segments)"
  have free: "randomCell rnd (i + 2 * k) \<notin> set segments"
    unfolding k_def using assms by (rule LeastI_ex)
  have "\<forall>k'<k. randomCell rnd (i + 2 * k') \<in> set segments"
    unfolding k_def using not_less_Least by blast
  from generate_loop_complete [OF this free] free show ?thesis by blast
qed

lemma generate_loop_never:
  assumes "\<forall>k. randomCell rnd (i + 2 * k) \<in> set segments"
  shows "generate_loop rnd i segments = None"
proof (cases "generate_loop rnd i segments")
  case None
  then show ?thesis .
next
  case (Some y)
  from generate_loop_sound [OF this] assms show ?thesis by auto
qed


lemma free_cell_exists:
  assumes "int (card (set segments)) \<le> GRID_SIZE * GRID_SIZE - 1"
  shows "\<exists>c. inGrid c \<and> c \<notin> set segments"
proof (rule ccontr)
  assume "\<not> (\<exists>c. inGrid c \<and> c \<notin> set segments)"
  then have "{0..<20} \<times> {0..<20} \<subseteq> set segments"
    by (auto simp: inGrid_def GRID_SIZE_def)
  then have "card ({0..<20::int} \<times> {0..<20::int}) \<le> card (set segments)"
    by (intro card_mono) simp_all
  then show False using assms by (simp add: GRID_SIZE_def)
qed

text \<open>
  C7, amended. Food generation returns exactly when some later draw of the random source
  is a cell off the snake, and then the food is not on any segment and the snake is
  untouched; when every draw is on the snake it never returns. A snake occupying at most
  grid capacity minus one cells leaves a free cell in the grid for the source to draw.
\<close>

theorem food_generation:
  "((\<exists>k. randomCell rnd (i + 2 * k) \<notin> set (snake s)) \<longrightarrow>
      (\<exists>s' j. generate rnd i s = Inr (s', j) \<and> food s' \<notin> set (snake s) \<and> snake s' = snake s)) \<and>
   ((\<forall>k. randomCell rnd (i + 2 * k) \<in> set (snake s)) \<longrightarrow> generate rnd i s = Inl Diverges) \<and>
   (int (card (set (snake s))) \<le> GRID_SIZE * GRID_SIZE - 1 \<longrightarrow>
      (\<exists>c. inGrid c \<and> c \<notin> set (snake s)))"
proof (intro conjI impI)
  assume "\<exists>k. randomCell rnd (i + 2 * k) \<notin> set (snake s)"
  from generate_loop_returns [OF this] obtain c j where
    "generate_loop rnd i (snake s) = Some (c, j)" "c \<notin> set (snake s)" by blast
  then show "\<exists>s' j. generate rnd i s = Inr (s', j) \<and> food s' \<notin> set (snake s) \<and> snake s' = snake s"
    by (simp add: generate_def startTimer_def clearTimer_def Let_def)
next
  assume "\<forall>k. randomCell rnd (i + 2 * k) \<in> set (snake s)"
  then show "generate rnd i s = Inl Diverges"
    by (simp add: generate_def generate_loop_never)
next
  assume "int (card (set (snake s))) \<le> GRID_SIZE * GRID_SIZE - 1"
  then show "\<exists>c. inGrid c \<and> c \<notin> set (snake s)" by (rule free_cell_exists)
qed

lemma initial_snake: "snake (initialize s) = [(10, 10), (9, 10), (8, 10)]"
  by (simp add: initialize_def GRID_SIZE_def INITIAL_SNAKE_LENGTH_def upt_conv_Cons)

theorem food_generation_witness:
  "randomCell zeroSource (0 + 2 * 0) \<notin> set (snake (initialize initialState)) \<and>
   int (card (set (snake (initialize initialState)))) \<le> GRID_SIZE * GRID_SIZE - 1 \<and>
   generate zeroSource 0 (initialize initialState) =
     Inr ((initialize initialState)\<lparr>food := (0, 0)\<rparr>, 2)"
proof -
  have h: "randomCell zeroSource (0 + 2 * 0) \<notin> set (snake (initialize initialState))"
    by (simp add: zero_cell initial_snake)
  then have "\<exists>k. randomCell zeroSource (0 + 2 * k) \<notin> set (snake (initialize initialState))" ..
  with food_generation [of zeroSource 0 "initialize initialState"]
  have "\<exists>s' j. generate zeroSource 0 (initialize initialState) = Inr (s', j)" by blast
  moreover have "generate zeroSource 0 (initialize initialState) =
     Inr ((initialize initialState)\<lparr>food := (0, 0)\<rparr>, 2)"
    using h by (simp add: generate_def generate_loop_hit zero_cell startTimer_def clearTimer_def
        initialize_def initialState_def)
  moreover have "int (card (set (snake (initialize initialState)))) \<le> GRID_SIZE * GRID_SIZE - 1"
    by (simp add: initial_snake GRID_SIZE_def)
  ultimately show ?thesis using h by simp
qed

text \<open>
  C7, as stated, fails: termination does not hold for every sequence of random values.
  With the three-segment snake of a new game and a source that always draws one half
  (the cell of the head), the loop never leaves.
\<close>

theorem food_generation_counterexample:
  "int (card (set (snake (initialize initialState)))) \<le> GRID_SIZE * GRID_SIZE - 1 \<and>
   generate halfSource 0 (initialize initialState) = Inl Diverges"
proof -
  have "\<forall>k. randomCell halfSource (0 + 2 * k) \<in> set (snake (initialize initialState))"
    by (simp add: half_cell initial_snake)
  then have "generate_loop halfSource 0 (snake (initialize initialState)) = None"
    by (rule generate_loop_never)
  then show ?thesis by (simp add: generate_def initial_snake GRID_SIZE_def)
qed

section \<open>Game invariants\<close>

lemmas game_defs = keydown_def start_def reset_def initialize_def generate_def clearTimer_def
      startTimer_def loop_def move_def checkWallCollision_def selectDifficulty_def
      checkSelfCollision_def checkCollision_def GRID_SIZE_def gameOver_def grow_def
      regenerate_def POINTS_PER_FOOD_def MIN_SPEED_def
      INITIAL_SNAKE_LENGTH_def upt_conv_Cons initialState_def

lemma isUnit_nonzero: "isUnit d \<Longrightarrow> d \<noteq> negation d"
  by (auto simp: isUnit_def negation_def)

lemma keyMap_unit: "keyMap key = Some d \<Longrightarrow> isUnit d"
  by (cases key) (auto simp: isUnit_def split: if_splits)

lemma setDirection_directionsOk:
  "directionsOk s \<Longrightarrow> isUnit d \<Longrightarrow> directionsOk (setDirection d s)"
  by (auto simp: directionsOk_def setDirection_def isUnit_def negation_def Let_def)

lemma setDirection_fields:
  "isPlaying (setDirection d s) = isPlaying s"
  "difficulty (setDirection d s) = difficulty s"
  "snake (setDirection d s) = snake s"
  "gameLoopId (setDirection d s) = gameLoopId s"
  "foodTimerId (setDirection d s) = foodTimerId s"
  "overlay (setDirection d s) = overlay s"
  "score (setDirection d s) = score s"
  "direction (setDirection d s) = direction s"
  by (simp_all add: setDirection_def Let_def)

lemma move_returns: "snake s \<noteq> [] \<Longrightarrow> \<exists>s1. move s = Inr s1"
  by (cases "snake s") (simp_all add: move_def Let_def)

lemma move_fields:
  assumes "move s = Inr s1"
  shows "isPlaying s1 = isPlaying s" "difficulty s1 = difficulty s"
    "gameLoopId s1 = gameLoopId s" "foodTimerId s1 = foodTimerId s"
    "overlay s1 = overlay s" "score s1 = score s" "food s1 = food s"
    "direction s1 = nextDirection s" "nextDirection s1 = nextDirection s"
    "snake s1 \<noteq> []" "\<not> shouldGrow s1" "snake s \<noteq> []"
    "length (snake s1) = length (snake s) + (if shouldGrow s then 1 else 0)"
    "difficultyKey s1 = difficultyKey s" "speed s1 = speed s"
  using assms by (cases "snake s"; auto simp: move_def Let_def split: if_splits)+

lemma move_directionsOk:
  "directionsOk s \<Longrightarrow> move s = Inr s1 \<Longrightarrow> directionsOk s1"
  using isUnit_nonzero [of "nextDirection s"]
  by (simp add: directionsOk_def move_fields)

lemma generate_Inr:
  assumes "generate rnd i s = Inr (s', j)"
  shows "\<exists>c. generate_loop rnd i (snake s) = Some (c, j) \<and>
             s' = s\<lparr>food := c, foodTimerId := (isPlaying s \<and> difficulty s \<noteq> None)\<rparr>"
proof (cases "generate_loop rnd i (snake s)")
  case None
  then show ?thesis using assms by (simp add: generate_def)
next
  case (Some y)
  obtain c j' where y: "y = (c, j')" by (cases y)
  have "startTimer (s\<lparr>food := c\<rparr>) =
        s\<lparr>food := c, foodTimerId := (isPlaying s \<and> difficulty s \<noteq> None)\<rparr>"
    by (simp add: startTimer_def clearTimer_def Let_def)
  then show ?thesis using assms Some y by (auto simp: generate_def)
qed

lemma generate_fields:
  assumes "generate rnd i s = Inr (s', j)"
  shows "snake s' = snake s" "direction s' = direction s" "nextDirection s' = nextDirection s"
    "isPlaying s' = isPlaying s" "difficulty s' = difficulty s" "score s' = score s"
    "shouldGrow s' = shouldGrow s" "gameLoopId s' = gameLoopId s" "overlay s' = overlay s"
    "foodTimerId s' = (isPlaying s \<and> difficulty s \<noteq> None)"
    "difficultyKey s' = difficultyKey s" "speed s' = speed s"
  using generate_Inr [OF assms] by auto

lemma gameOver_fields:
  "\<not> isPlaying (gameOver s)" "\<not> gameLoopId (gameOver s)" "\<not> foodTimerId (gameOver s)"
  "overlay (gameOver s) = GameOverScreen" "snake (gameOver s) = snake s"
  "score (gameOver s) = score s" "difficulty (gameOver s) = difficulty s"
  "direction (gameOver s) = direction s" "nextDirection (gameOver s) = nextDirection s"
  "shouldGrow (gameOver s) = shouldGrow s" "difficultyKey (gameOver s) = difficultyKey s"
  by (simp_all add: gameOver_def clearTimer_def)

text \<open>The three ways a tick can end, from the state the move leaves.\<close>

lemma loop_cases:
  assumes "isPlaying s" and "move s = Inr s1"
  shows "loop rnd i s =
           (if collides s1 then Inr (gameOver s1, i)
            else if hd (snake s1) \<noteq> food s1 then Inr (s1\<lparr>gameLoopId := True\<rparr>, i)
            else case regenerate rnd i (s1\<lparr>shouldGrow := True, score := score s1 + POINTS_PER_FOOD\<rparr>) of
                   Inl e \<Rightarrow> Inl e
                 | Inr (s4, j) \<Rightarrow>
                     (case difficulty s4 of
                        None \<Rightarrow> Inl TypeError
                      | Some d \<Rightarrow>
                          Inr (s4\<lparr>speed := max MIN_SPEED (speed s4 - speedIncrement d),
                                  gameLoopId := True\<rparr>, j)))"
proof -
  obtain h rest where sn: "snake s1 = h # rest"
    using move_fields(10) [OF assms(2)] by (cases "snake s1") auto
  show ?thesis
    using assms sn
    by (auto simp: loop_def checkWallCollision_def checkSelfCollision_def checkCollision_def
        collides_def inGrid_def grow_def Let_def prod_eq_iff split: sum.splits bool.splits)
qed

lemma eatingTick_iff:
  assumes "move s = Inr s1"
  shows "eatingTick s \<longleftrightarrow> \<not> collides s1 \<and> hd (snake s1) = food s1"
proof -
  obtain h rest where sn: "snake s1 = h # rest"
    using move_fields(10) [OF assms] by (cases "snake s1") auto
  show ?thesis
    using assms sn
    by (auto simp: eatingTick_def checkWallCollision_def checkSelfCollision_def
        checkCollision_def collides_def inGrid_def prod_eq_iff)
qed


lemma regenerate_Inr:
  assumes "regenerate rnd i s = Inr (s', j)"
  shows "\<exists>c. generate_loop rnd i (snake s) = Some (c, j) \<and>
             s' = s\<lparr>food := c, foodTimerId := (isPlaying s \<and> difficulty s \<noteq> None)\<rparr>"
  using generate_Inr [of rnd i "clearTimer s" s' j] assms
  by (auto simp: regenerate_def clearTimer_def)

text \<open>What a tick leaves, case by case.\<close>

lemma loop_result:
  assumes "isPlaying s" and "move s = Inr s1" and "loop rnd i s = Inr (s', j)"
  shows "(collides s1 \<and> s' = gameOver s1 \<and> j = i) \<or>
         (\<not> collides s1 \<and> hd (snake s1) \<noteq> food s1 \<and> s' = s1\<lparr>gameLoopId := True\<rparr> \<and> j = i) \<or>
         (\<not> collides s1 \<and> hd (snake s1) = food s1 \<and>
          (\<exists>c d. difficulty s1 = Some d \<and>
             s' = s1\<lparr>shouldGrow := True, score := score s1 + POINTS_PER_FOOD, food := c,
                     foodTimerId := True,
                     speed := max MIN_SPEED (speed s1 - speedIncrement d), gameLoopId := True\<rparr>))"
proof -
  note lc = loop_cases [OF assms(1,2), of rnd i]
  have playing: "isPlaying s1" using assms(1,2) by (simp add: move_fields)
  show ?thesis
  proof (cases "collides s1")
    case True
    then show ?thesis using lc assms(3) by simp
  next
    case nc: False
    show ?thesis
    proof (cases "hd (snake s1) = food s1")
      case False
      then show ?thesis using lc nc assms(3) by simp
    next
      case True
      let ?s3 = "s1\<lparr>shouldGrow := True, score := score s1 + POINTS_PER_FOOD\<rparr>"
      from lc nc True assms(3) obtain s4 where
        rg: "regenerate rnd i ?s3 = Inr (s4, j)" and
        rest: "(case difficulty s4 of None \<Rightarrow> Inl TypeError
               | Some d \<Rightarrow> Inr (s4\<lparr>speed := max MIN_SPEED (speed s4 - speedIncrement d),
                                    gameLoopId := True\<rparr>, j)) = Inr (s', j)"
        by (auto split: sum.splits prod.splits option.splits)
      from regenerate_Inr [OF rg] obtain c where
        s4: "s4 = ?s3\<lparr>food := c, foodTimerId := (isPlaying ?s3 \<and> difficulty ?s3 \<noteq> None)\<rparr>"
        by blast
      from rest s4 obtain d where d: "difficulty s1 = Some d"
        by (cases "difficulty s1") auto
      have "s' = s1\<lparr>shouldGrow := True, score := score s1 + POINTS_PER_FOOD, food := c,
                     foodTimerId := True,
                     speed := max MIN_SPEED (speed s1 - speedIncrement d), gameLoopId := True\<rparr>"
        using rest s4 d playing by simp
      then show ?thesis using nc True d by blast
    qed
  qed
qed

lemma loop_wellFormed:
  assumes "wellFormed s" and "loop rnd i s = Inr (s', j)"
  shows "wellFormed s'"
proof (cases "isPlaying s")
  case False
  then show ?thesis using assms by (simp add: loop_def)
next
  case True
  then have "snake s \<noteq> []" and diff: "difficulty s \<noteq> None"
    using assms(1) by (simp_all add: wellFormed_def)
  then obtain s1 where mv: "move s = Inr s1" using move_returns by blast
  have ok1: "directionsOk s1"
    using assms(1) move_directionsOk [OF _ mv] by (simp add: wellFormed_def)
  note f = move_fields [OF mv]
  from loop_result [OF True mv assms(2)] show ?thesis
  proof (elim disjE conjE exE)
    assume "s' = gameOver s1"
    then show ?thesis
      using ok1 diff f by (simp add: wellFormed_def directionsOk_def gameOver_fields)
  next
    assume "s' = s1\<lparr>gameLoopId := True\<rparr>"
    then show ?thesis
      using ok1 diff f True by (simp add: wellFormed_def directionsOk_def)
  next
    fix c and d :: difficulty
    assume "s' = s1\<lparr>shouldGrow := True, score := score s1 + POINTS_PER_FOOD, food := c,
                     foodTimerId := True,
                     speed := max MIN_SPEED (speed s1 - speedIncrement d), gameLoopId := True\<rparr>"
    then show ?thesis
      using ok1 diff f True by (simp add: wellFormed_def directionsOk_def)
  qed
qed

lemma loop_directionsOk:
  assumes "directionsOk s" and "loop rnd i s = Inr (s', j)"
  shows "directionsOk s'"
proof (cases "isPlaying s")
  case False
  then show ?thesis using assms by (simp add: loop_def)
next
  case True
  show ?thesis
  proof (cases "move s")
    case (Inl e)
    then show ?thesis using assms(2) True by (simp add: loop_def)
  next
    case (Inr s1)
    have ok1: "directionsOk s1" using assms(1) Inr by (rule move_directionsOk)
    from loop_result [OF True Inr assms(2)] show ?thesis
      using ok1 by (auto simp: directionsOk_def gameOver_fields)
  qed
qed

lemma start_Inr:
  assumes "difficulty s = Some d" and "start rnd i now s = Inr (s', j)"
  shows "\<exists>c j0. generate_loop rnd i [(10, 10), (9, 10), (8, 10)] = Some (c, j0) \<and>
                loop rnd j0 (started d now c s) = Inr (s', j)"
proof (cases "generate rnd i (initialize (reset s))")
  case (Inl e)
  then show ?thesis using assms by (simp add: start_def)
next
  case (Inr r)
  obtain s1 j0 where r: "r = (s1, j0)" by (cases r)
  from generate_Inr [of rnd i "initialize (reset s)" s1 j0] Inr r obtain c where
    c: "generate_loop rnd i [(10, 10), (9, 10), (8, 10)] = Some (c, j0)" and
    s1: "s1 = (initialize (reset s))\<lparr>food := c,
           foodTimerId := (isPlaying (initialize (reset s)) \<and> difficulty (initialize (reset s)) \<noteq> None)\<rparr>"
    by (auto simp: initial_snake)
  have np: "\<not> isPlaying (initialize (reset s))"
    by (simp add: initialize_def reset_def clearTimer_def Let_def)
  have "loop rnd j0 (started d now c s) = Inr (s', j)"
    using assms Inr r s1 np by (simp add: start_def started_def)
  then show ?thesis using c by blast
qed

lemma started_fields:
  "snake (started d now c s) = [(10, 10), (9, 10), (8, 10)]"
  "direction (started d now c s) = (1, 0)" "nextDirection (started d now c s) = (1, 0)"
  "isPlaying (started d now c s)" "\<not> shouldGrow (started d now c s)"
  "score (started d now c s) = 0" "difficulty (started d now c s) = difficulty s"
  "difficultyKey (started d now c s) = difficultyKey s" "food (started d now c s) = c"
  "\<not> gameLoopId (started d now c s)" "\<not> foodTimerId (started d now c s)"
  "overlay (started d now c s) = Hidden"
  by (simp_all add: started_def initial_snake)
    (simp_all add: initialize_def reset_def clearTimer_def Let_def)

lemma started_move:
  "\<exists>s1. move (started d now c s) = Inr s1 \<and> snake s1 = [(11, 10), (10, 10), (9, 10)] \<and>
        \<not> collides s1"
  by (simp add: move_def Let_def started_fields collides_def inGrid_def GRID_SIZE_def)

lemma start_running:
  assumes "difficulty s = Some d" and "start rnd i now s = Inr (s', j)"
  shows "isPlaying s'" "difficulty s' = difficulty s" "difficultyKey s' = difficultyKey s"
    "score s' = 0 \<or> score s' = POINTS_PER_FOOD" "length (snake s') = 3"
    "directionsOk s'" "wellFormed s'"
proof -
  from start_Inr [OF assms] obtain c j0 where
    lp: "loop rnd j0 (started d now c s) = Inr (s', j)" by blast
  obtain s1 where mv: "move (started d now c s) = Inr s1"
      and sn: "snake s1 = [(11, 10), (10, 10), (9, 10)]" and nc: "\<not> collides s1"
    using started_move by blast
  note f = move_fields [OF mv]
  have wf: "wellFormed (started d now c s)"
    using assms(1)
    by (simp add: wellFormed_def directionsOk_def started_fields isUnit_def negation_def)
  show "wellFormed s'" using wf lp by (rule loop_wellFormed)
  then show "directionsOk s'" by (simp add: wellFormed_def)
  have "isPlaying s' \<and> difficulty s' = difficulty s \<and> difficultyKey s' = difficultyKey s \<and>
        (score s' = 0 \<or> score s' = POINTS_PER_FOOD) \<and> length (snake s') = 3"
  proof -
    from loop_result [OF started_fields(4) mv lp] show ?thesis
    proof (elim disjE conjE exE)
      assume "collides s1"
      then show ?thesis using nc by simp
    next
      assume "s' = s1\<lparr>gameLoopId := True\<rparr>"
      then show ?thesis using f sn by (simp add: started_fields)
    next
      fix c' and d' :: difficulty
      assume "s' = s1\<lparr>shouldGrow := True, score := score s1 + POINTS_PER_FOOD, food := c',
                     foodTimerId := True,
                     speed := max MIN_SPEED (speed s1 - speedIncrement d'), gameLoopId := True\<rparr>"
      then show ?thesis using f sn by (simp add: started_fields)
    qed
  qed
  then show "isPlaying s'" "difficulty s' = difficulty s" "difficultyKey s' = difficultyKey s"
    "score s' = 0 \<or> score s' = POINTS_PER_FOOD" "length (snake s') = 3"
    by simp_all
qed


lemma start_wellFormed:
  assumes "wellFormed s" and "start rnd i now s = Inr (s', j)"
  shows "wellFormed s'"
proof (cases "difficulty s")
  case None
  then show ?thesis using assms by (simp add: start_def)
next
  case (Some d)
  then show ?thesis using assms(2) by (rule start_running(7))
qed

lemma start_directionsOk:
  assumes "directionsOk s" and "start rnd i now s = Inr (s', j)"
  shows "directionsOk s'"
proof (cases "difficulty s")
  case None
  then show ?thesis using assms by (simp add: start_def)
next
  case (Some d)
  then show ?thesis using assms(2) by (rule start_running(6))
qed

lemma setDirection_wellFormed:
  "wellFormed s \<Longrightarrow> isUnit d \<Longrightarrow> wellFormed (setDirection d s)"
  by (simp add: wellFormed_def setDirection_fields setDirection_directionsOk)

lemma touchend_cases:
  "touchend deltaX deltaY s = s \<or> (\<exists>d. isUnit d \<and> touchend deltaX deltaY s = setDirection d s)"
  by (auto simp: touchend_def isUnit_def)

lemma keydown_cases:
  "keydown rnd i now key s = Inr (s', j) \<Longrightarrow>
   (s' = s \<and> j = i) \<or> (\<exists>d. isUnit d \<and> s' = setDirection d s \<and> j = i) \<or>
   (key = Character CHR '' '' \<and> \<not> isPlaying s \<and> start rnd i now s = Inr (s', j))"
  by (auto simp: keydown_def split: if_splits option.splits dest: keyMap_unit)

lemma step_wellFormed:
  assumes "wellFormed s" and "step rnd i now ev s = Inr (s', j)"
  shows "wellFormed s'"
proof (cases ev)
  case (KeyDown key)
  then have "keydown rnd i now key s = Inr (s', j)" using assms(2) by simp
  from keydown_cases [OF this] show ?thesis
    using assms(1) by (auto intro: setDirection_wellFormed start_wellFormed)
next
  case TouchStart
  then show ?thesis using assms by (auto split: if_splits intro: start_wellFormed)
next
  case (TouchEnd deltaX deltaY)
  then show ?thesis
    using assms touchend_cases [of deltaX deltaY s] by (auto intro: setDirection_wellFormed)
next
  case ClickStart
  then show ?thesis using assms by (auto split: if_splits intro: start_wellFormed)
next
  case (ClickDifficulty k)
  then show ?thesis
    using assms by (auto simp: selectDifficulty_def wellFormed_def directionsOk_def)
next
  case LoopTimer
  have "wellFormed (s\<lparr>gameLoopId := False\<rparr>)"
    using assms(1) by (simp add: wellFormed_def directionsOk_def)
  then show ?thesis
    using LoopTimer assms by (auto split: if_splits intro: loop_wellFormed)
next
  case FoodTimer
  show ?thesis
  proof (cases "foodTimerId s")
    case False
    then show ?thesis using FoodTimer assms by simp
  next
    case True
    then have g: "generate rnd i (s\<lparr>foodTimerId := False\<rparr>) = Inr (s', j)"
      using FoodTimer assms(2) by (simp add: relocate_def)
    show ?thesis
      using assms(1) generate_fields [OF g]
      by (simp add: wellFormed_def directionsOk_def)
  qed
qed

lemma step_directionsOk:
  assumes "directionsOk s" and "step rnd i now ev s = Inr (s', j)"
  shows "directionsOk s'"
proof (cases ev)
  case (KeyDown key)
  then have "keydown rnd i now key s = Inr (s', j)" using assms(2) by simp
  from keydown_cases [OF this] show ?thesis
    using assms(1) by (auto intro: setDirection_directionsOk start_directionsOk)
next
  case TouchStart
  then show ?thesis using assms by (auto split: if_splits intro: start_directionsOk)
next
  case (TouchEnd deltaX deltaY)
  then show ?thesis
    using assms touchend_cases [of deltaX deltaY s] by (auto intro: setDirection_directionsOk)
next
  case ClickStart
  then show ?thesis using assms by (auto split: if_splits intro: start_directionsOk)
next
  case (ClickDifficulty k)
  then show ?thesis
    using assms by (auto simp: selectDifficulty_def directionsOk_def)
next
  case LoopTimer
  have "directionsOk (s\<lparr>gameLoopId := False\<rparr>)"
    using assms(1) by (simp add: directionsOk_def)
  then show ?thesis
    using LoopTimer assms by (auto split: if_splits intro: loop_directionsOk)
next
  case FoodTimer
  show ?thesis
  proof (cases "foodTimerId s")
    case False
    then show ?thesis using FoodTimer assms by simp
  next
    case True
    then have g: "generate rnd i (s\<lparr>foodTimerId := False\<rparr>) = Inr (s', j)"
      using FoodTimer assms(2) by (simp add: relocate_def)
    show ?thesis
      using assms(1) generate_fields [OF g] by (simp add: directionsOk_def)
  qed
qed

lemma wellFormed_initialState: "wellFormed initialState"
  by (simp add: wellFormed_def directionsOk_def initialState_def isUnit_def negation_def)

lemma reachable_wellFormed: "reachable s \<Longrightarrow> wellFormed s"
  by (induction rule: reachable.induct) (auto intro: wellFormed_initialState step_wellFormed)

text \<open>
  C5. A request for the exact negation of the committed direction leaves the state, and
  with it the pending direction, as it is; the operation is a total function and raises
  nothing. In every reachable state the pending direction differs from the negation of
  the committed one, and the invariant (both directions unit vectors, no reversal pending)
  is kept by the direction commit of a tick and by every event handler.
\<close>

theorem no_reversal:
  "(direction s \<noteq> (0, 0) \<longrightarrow> setDirection (negation (direction s)) s = s) \<and>
   (reachable s \<longrightarrow> nextDirection s \<noteq> negation (direction s)) \<and>
   (directionsOk s \<and> move s = Inr s1 \<longrightarrow> directionsOk s1) \<and>
   (directionsOk s \<and> step rnd i now ev s = Inr (s', j) \<longrightarrow> directionsOk s')"
proof (intro conjI impI)
  assume "direction s \<noteq> (0, 0)"
  then show "setDirection (negation (direction s)) s = s"
    by (auto simp: setDirection_def negation_def Let_def prod_eq_iff)
next
  assume "reachable s"
  then have "wellFormed s" by (rule reachable_wellFormed)
  then show "nextDirection s \<noteq> negation (direction s)"
    by (simp add: wellFormed_def directionsOk_def)
next
  assume "directionsOk s \<and> move s = Inr s1"
  then show "directionsOk s1" using move_directionsOk by blast
next
  assume "directionsOk s \<and> step rnd i now ev s = Inr (s', j)"
  then show "directionsOk s'" using step_directionsOk by blast
qed


theorem no_reversal_witness:
  "direction aboutToEat \<noteq> (0, 0) \<and>
   setDirection (- 1, 0) aboutToEat = aboutToEat \<and>
   reachable initialState \<and>
   nextDirection initialState \<noteq> negation (direction initialState) \<and>
   directionsOk aboutToEat \<and>
   move aboutToEat = Inr (aboutToEat\<lparr>snake := [(12, 10), (11, 10), (10, 10)]\<rparr>) \<and>
   directionsOk (aboutToEat\<lparr>snake := [(12, 10), (11, 10), (10, 10)]\<rparr>) \<and>
   step zeroSource 0 0 (KeyDown ArrowUp) aboutToEat =
     Inr (aboutToEat\<lparr>nextDirection := (0, - 1)\<rparr>, 0) \<and>
   directionsOk (aboutToEat\<lparr>nextDirection := (0, - 1)\<rparr>)"
proof -
  have d: "direction aboutToEat \<noteq> (0, 0)" by (simp add: aboutToEat_def)
  have n: "negation (direction aboutToEat) = (- 1, 0)"
    by (simp add: aboutToEat_def negation_def)
  have ok: "directionsOk aboutToEat"
    by (simp add: directionsOk_def aboutToEat_def isUnit_def negation_def)
  have mv: "move aboutToEat = Inr (aboutToEat\<lparr>snake := [(12, 10), (11, 10), (10, 10)]\<rparr>)"
    by (simp add: move_def aboutToEat_def)
  have st: "step zeroSource 0 0 (KeyDown ArrowUp) aboutToEat =
     Inr (aboutToEat\<lparr>nextDirection := (0, - 1)\<rparr>, 0)"
    by (simp add: keydown_def setDirection_def aboutToEat_def)
  note inst = no_reversal [of aboutToEat "aboutToEat\<lparr>snake := [(12, 10), (11, 10), (10, 10)]\<rparr>"
      zeroSource 0 0 "KeyDown ArrowUp" "aboutToEat\<lparr>nextDirection := (0, - 1)\<rparr>" 0]
  have r: "reachable initialState" by (rule reachable.initial)
  have "nextDirection initialState \<noteq> negation (direction initialState)"
    using no_reversal [of initialState] r by blast
  then show ?thesis using inst d n ok mv st r by simp
qed

section \<open>Ticks\<close>

lemma stopped_step:
  assumes "\<not> isPlaying s" "\<not> gameLoopId s" "\<not> foodTimerId s" "\<not> startsGame ev"
  shows "\<exists>s'. step rnd i now ev s = Inr (s', i) \<and>
              \<not> isPlaying s' \<and> \<not> gameLoopId s' \<and> \<not> foodTimerId s' \<and>
              overlay s' = overlay s \<and> snake s' = snake s \<and> score s' = score s \<and>
              food s' = food s"
  using assms
  by (cases ev)
    (auto simp: keydown_def touchend_def selectDifficulty_def split: option.splits)

lemma stopped_steps:
  assumes "\<not> isPlaying s" "\<not> gameLoopId s" "\<not> foodTimerId s"
    and "\<forall>ev \<in> set evs. \<not> startsGame ev"
  shows "\<exists>s'. steps rnd i now evs s = Inr (s', i) \<and> \<not> isPlaying s' \<and>
              overlay s' = overlay s \<and> snake s' = snake s \<and> score s' = score s \<and>
              food s' = food s"
  using assms
proof (induction evs arbitrary: s)
  case Nil
  then show ?case by simp
next
  case (Cons ev evs)
  from stopped_step [of s ev rnd i now] Cons.prems obtain s1 where
    s1: "step rnd i now ev s = Inr (s1, i)" "\<not> isPlaying s1" "\<not> gameLoopId s1"
      "\<not> foodTimerId s1" "overlay s1 = overlay s" "snake s1 = snake s" "score s1 = score s"
      "food s1 = food s"
    by auto
  from Cons.IH [OF s1(2,3,4)] Cons.prems(4) obtain s' where
    "steps rnd i now evs s1 = Inr (s', i)" "\<not> isPlaying s'" "overlay s' = overlay s1"
    "snake s' = snake s1" "score s' = score s1" "food s' = food s1"
    by auto
  then show ?case using s1 by simp
qed

text \<open>
  C4. On a tick of a running game, when the new head the move produces is outside the grid
  on either axis or on another segment of the snake as the move leaves it, the tick ends in
  \<open>gameOver\<close>: the state is GameOver on that same tick, and from then on any sequence of
  events without a start command (timer callbacks and direction keys included) leaves it
  GameOver with the same snake, score and food. No tick is processed until a restart.
\<close>

theorem collision_ends_game:
  assumes "isPlaying s" and "move s = Inr s1" and "collides s1"
  shows "loop rnd i s = Inr (gameOver s1, i) \<and>
         status_of (gameOver s1) = GameOver \<and>
         (\<forall>evs rnd' i' now. (\<forall>ev \<in> set evs. \<not> startsGame ev) \<longrightarrow>
            (\<exists>s'. steps rnd' i' now evs (gameOver s1) = Inr (s', i') \<and>
                  status_of s' = GameOver \<and> snake s' = snake s1 \<and> score s' = score s1 \<and>
                  food s' = food s1))"
proof (intro conjI allI impI)
  show "loop rnd i s = Inr (gameOver s1, i)"
    using loop_cases [OF assms(1,2), of rnd i] assms(3) by simp
  show "status_of (gameOver s1) = GameOver"
    by (simp add: status_of_def gameOver_fields)
  fix evs :: "event list" and rnd' i' now
  assume quiet: "\<forall>ev \<in> set evs. \<not> startsGame ev"
  have "\<not> isPlaying (gameOver s1)" "\<not> gameLoopId (gameOver s1)" "\<not> foodTimerId (gameOver s1)"
    by (simp_all add: gameOver_fields)
  from stopped_steps [OF this quiet, of rnd' i' now]
  obtain s' where "steps rnd' i' now evs (gameOver s1) = Inr (s', i')" "\<not> isPlaying s'"
    "overlay s' = overlay (gameOver s1)" "snake s' = snake (gameOver s1)"
    "score s' = score (gameOver s1)" "food s' = food (gameOver s1)"
    by blast
  then show "\<exists>s'. steps rnd' i' now evs (gameOver s1) = Inr (s', i') \<and>
                  status_of s' = GameOver \<and> snake s' = snake s1 \<and> score s' = score s1 \<and>
                  food s' = food s1"
    by (simp add: status_of_def gameOver_fields gameOver_def clearTimer_def)
qed


theorem collision_ends_game_witness:
  "isPlaying atTheWall \<and>
   move atTheWall = Inr (atTheWall\<lparr>snake := [(20, 10), (19, 10), (18, 10)]\<rparr>) \<and>
   collides (atTheWall\<lparr>snake := [(20, 10), (19, 10), (18, 10)]\<rparr>) \<and>
   loop zeroSource 0 atTheWall = Inr (crashed, 0) \<and>
   status_of crashed = GameOver \<and>
   (\<exists>s'. steps zeroSource 0 0 [LoopTimer, KeyDown ArrowUp, FoodTimer, LoopTimer] crashed =
           Inr (s', 0) \<and> status_of s' = GameOver \<and> snake s' = snake crashed)"
proof -
  let ?m = "atTheWall\<lparr>snake := [(20, 10), (19, 10), (18, 10)]\<rparr>"
  have p: "isPlaying atTheWall" by (simp add: atTheWall_def)
  have m: "move atTheWall = Inr ?m" by (simp add: move_def atTheWall_def)
  have c: "collides ?m" by (simp add: collides_def inGrid_def GRID_SIZE_def)
  have g: "gameOver ?m = crashed"
    by (simp add: gameOver_def clearTimer_def atTheWall_def crashed_def)
  have q: "\<forall>ev \<in> set [LoopTimer, KeyDown ArrowUp, FoodTimer, LoopTimer]. \<not> startsGame ev"
    by simp
  note inst = collision_ends_game [OF p m c, of zeroSource 0, unfolded g]
  from inst have "loop zeroSource 0 atTheWall = Inr (crashed, 0)" "status_of crashed = GameOver"
    by simp_all
  moreover from inst q
  have "\<exists>s'. steps zeroSource 0 0 [LoopTimer, KeyDown ArrowUp, FoodTimer, LoopTimer] crashed =
           Inr (s', 0) \<and> status_of s' = GameOver \<and> snake s' = snake crashed"
    by (metis gameOver_fields(5) g)
  ultimately show ?thesis using p m c by simp
qed

lemma loop_returns:
  assumes "isPlaying s" and "move s = Inr s1" and "difficulty s \<noteq> None"
    and "\<exists>k. randomCell rnd (i + 2 * k) \<notin> set (snake s1)"
  shows "\<exists>s' j. loop rnd i s = Inr (s', j)"
proof -
  let ?s3 = "s1\<lparr>shouldGrow := True, score := score s1 + POINTS_PER_FOOD\<rparr>"
  from generate_loop_returns [OF assms(4)] obtain c j where
    "generate_loop rnd i (snake s1) = Some (c, j)" by blast
  then have "\<exists>s4. regenerate rnd i ?s3 = Inr (s4, j) \<and> difficulty s4 = difficulty s"
    using move_fields(2) [OF assms(2)]
    by (simp add: regenerate_def generate_def clearTimer_def startTimer_def Let_def)
  then show ?thesis
    using loop_cases [OF assms(1,2), of rnd i] assms(3) by (auto split: option.splits)
qed

text \<open>
  C3, amended. The segment count changes on a tick by the growth pending at its start: it
  is unchanged when none is pending and grows by exactly one when one is, whether or not
  the head lands on food on that tick. A tick that does not eat returns, leaves the score
  as it is and no growth pending. A tick that eats adds exactly the per-food value (10) to
  the score, keeps the game running and leaves growth pending, so that the count grows by
  exactly one on the immediately following tick; it returns whenever the food placement
  does.
\<close>

theorem tick_growth:
  assumes "isPlaying s" and "snake s \<noteq> []"
  shows "(\<not> eatingTick s \<longrightarrow>
            (\<exists>s'. loop rnd i s = Inr (s', i) \<and>
                  length (snake s') = length (snake s) + (if shouldGrow s then 1 else 0) \<and>
                  score s' = score s \<and> \<not> shouldGrow s')) \<and>
         (eatingTick s \<and> loop rnd i s = Inr (s', j) \<longrightarrow>
            length (snake s') = length (snake s) + (if shouldGrow s then 1 else 0) \<and>
            score s' = score s + POINTS_PER_FOOD \<and> isPlaying s' \<and> shouldGrow s' \<and>
            (\<forall>rnd' s'' k. loop rnd' j s' = Inr (s'', k) \<longrightarrow>
               length (snake s'') = length (snake s') + 1)) \<and>
         (eatingTick s \<and> difficulty s \<noteq> None \<and> move s = Inr s1 \<and>
          (\<exists>k. randomCell rnd (i + 2 * k) \<notin> set (snake s1)) \<longrightarrow>
            (\<exists>s' j. loop rnd i s = Inr (s', j)))"
proof -
  obtain m where mv: "move s = Inr m" using move_returns [OF assms(2)] by blast
  note f = move_fields [OF mv]
  note lc = loop_cases [OF assms(1) mv, of rnd i]
  have plain: "\<exists>s'. loop rnd i s = Inr (s', i) \<and>
                length (snake s') = length (snake s) + (if shouldGrow s then 1 else 0) \<and>
                score s' = score s \<and> \<not> shouldGrow s'"
    if ne: "\<not> eatingTick s"
  proof (cases "collides m")
    case True
    then have "loop rnd i s = Inr (gameOver m, i)" using lc by simp
    then show ?thesis using f by (simp add: gameOver_fields)
  next
    case False
    moreover have "collides m \<or> hd (snake m) \<noteq> food m"
      using ne eatingTick_iff [OF mv] by blast
    ultimately have "loop rnd i s = Inr (m\<lparr>gameLoopId := True\<rparr>, i)" using lc by simp
    then show ?thesis using f by simp
  qed
  have eats: "length (snake s') = length (snake s) + (if shouldGrow s then 1 else 0) \<and>
            score s' = score s + POINTS_PER_FOOD \<and> isPlaying s' \<and> shouldGrow s' \<and>
            (\<forall>rnd' s'' k. loop rnd' j s' = Inr (s'', k) \<longrightarrow>
               length (snake s'') = length (snake s') + 1)"
    if e: "eatingTick s \<and> loop rnd i s = Inr (s', j)"
  proof -
    have nc: "\<not> collides m" and onfood: "hd (snake m) = food m"
      using e eatingTick_iff [OF mv] by blast+
    from loop_result [OF assms(1) mv] e nc onfood obtain c and d :: difficulty where
      s': "s' = m\<lparr>shouldGrow := True, score := score m + POINTS_PER_FOOD, food := c,
                   foodTimerId := True,
                   speed := max MIN_SPEED (speed m - speedIncrement d), gameLoopId := True\<rparr>"
      by blast
    have next_tick: "length (snake s'') = length (snake s') + 1"
      if run: "loop rnd' j s' = Inr (s'', k)" for rnd' s'' k
    proof -
      have pl: "isPlaying s'" using s' f assms(1) by simp
      have "snake s' \<noteq> []" using s' f by simp
      then obtain m' where mv': "move s' = Inr m'" using move_returns by blast
      note f' = move_fields [OF mv']
      have len: "length (snake m') = length (snake s') + 1" using f'(13) s' by simp
      from loop_result [OF pl mv' run] show ?thesis
        using len by (elim disjE conjE exE) (simp_all add: gameOver_fields)
    qed
    show ?thesis using s' f assms(1) next_tick by simp
  qed
  have returns: "\<exists>s' j. loop rnd i s = Inr (s', j)"
    if "eatingTick s \<and> difficulty s \<noteq> None \<and> move s = Inr s1 \<and>
          (\<exists>k. randomCell rnd (i + 2 * k) \<notin> set (snake s1))"
    using that loop_returns [OF assms(1), of s1 rnd i] by blast
  show ?thesis using plain eats returns by blast
qed


lemma first_tick: "loop sampleSource 2 aboutToEat = Inr (justAte, 4)"
  by (simp add: game_defs aboutToEat_def justAte_def generate_loop_hit randomCell_def
      sampleSource_def)

lemma second_tick: "loop sampleSource 4 justAte = Inr (ateAgain, 6)"
  by (simp add: game_defs ateAgain_def justAte_def generate_loop_hit randomCell_def
      sampleSource_def)

lemma third_tick: "loop sampleSource 6 ateAgain = Inr (grown, 6)"
  by (simp add: game_defs grown_def ateAgain_def)

lemma run_to_eat:
  "steps sampleSource 0 1000 [ClickDifficulty EASY, ClickStart] initialState = Inr (aboutToEat, 2)"
  by (simp add: game_defs generate_loop_hit randomCell_def sampleSource_def aboutToEat_def)

theorem tick_growth_witness:
  "isPlaying aboutToEat \<and> snake aboutToEat \<noteq> [] \<and> eatingTick aboutToEat \<and>
   loop sampleSource 2 aboutToEat = Inr (justAte, 4) \<and>
   length (snake justAte) = length (snake aboutToEat) \<and>
   score justAte = score aboutToEat + 10 \<and>
   loop sampleSource 4 justAte = Inr (ateAgain, 6) \<and>
   length (snake ateAgain) = length (snake justAte) + 1"
proof -
  have p: "isPlaying aboutToEat" and n: "snake aboutToEat \<noteq> []"
    by (simp_all add: aboutToEat_def)
  have e: "eatingTick aboutToEat"
    by (simp add: eatingTick_def aboutToEat_def move_def checkWallCollision_def
        checkSelfCollision_def checkCollision_def GRID_SIZE_def)
  from tick_growth [OF p n, of sampleSource 2 justAte 4] e first_tick
  have len: "length (snake justAte) =
        length (snake aboutToEat) + (if shouldGrow aboutToEat then 1 else 0)"
    and sc: "score justAte = score aboutToEat + POINTS_PER_FOOD"
    and nxt: "\<forall>rnd' s'' k. loop rnd' 4 justAte = Inr (s'', k) \<longrightarrow>
        length (snake s'') = length (snake justAte) + 1"
    by blast+
  from nxt second_tick have "length (snake ateAgain) = length (snake justAte) + 1" by blast
  moreover from len have "length (snake justAte) = length (snake aboutToEat)"
    by (simp add: aboutToEat_def)
  moreover from sc have "score justAte = score aboutToEat + 10"
    by (simp add: POINTS_PER_FOOD_def)
  ultimately show ?thesis
    using p n e first_tick second_tick by simp
qed

text \<open>
  C3, as stated, fails on both counts. In a game on EASY whose food twice reappears one
  cell ahead of the head, the second eating tick is a tick on which the head lands on food
  and the segment count goes from 3 to 4, and the tick after it does not land on food and
  the count goes from 4 to 5.
\<close>

theorem tick_growth_counterexample:
  "steps sampleSource 0 1000 [ClickDifficulty EASY, ClickStart] initialState = Inr (aboutToEat, 2) \<and>
   loop sampleSource 2 aboutToEat = Inr (justAte, 4) \<and>
   eatingTick justAte \<and>
   loop sampleSource 4 justAte = Inr (ateAgain, 6) \<and>
   length (snake justAte) = 3 \<and> length (snake ateAgain) = 4 \<and>
   \<not> eatingTick ateAgain \<and>
   loop sampleSource 6 ateAgain = Inr (grown, 6) \<and>
   length (snake grown) = 5"
  using run_to_eat first_tick second_tick third_tick
  by (simp add: eatingTick_def justAte_def ateAgain_def grown_def move_def
      checkWallCollision_def checkSelfCollision_def checkCollision_def GRID_SIZE_def)

section \<open>Restart\<close>

lemma start_returns:
  assumes "difficulty s = Some d"
    and fair: "\<forall>i'. \<exists>k. randomCell rnd (i' + 2 * k) \<notin> set [(11, 10), (10, 10), (9, 10), (8, 10)]"
  shows "\<exists>s' j. start rnd i now s = Inr (s', j)"
proof -
  from fair have "\<exists>k. randomCell rnd (i + 2 * k) \<notin> set [(10, 10), (9, 10), (8, 10)]"
    by (metis list.set_intros(2))
  from generate_loop_returns [OF this] obtain c j0 where
    gl: "generate_loop rnd i [(10, 10), (9, 10), (8, 10)] = Some (c, j0)" by blast
  have np: "\<not> isPlaying (initialize (reset s))"
    by (simp add: initialize_def reset_def clearTimer_def Let_def)
  have st: "start rnd i now s = loop rnd j0 (started d now c s)"
    using assms(1) gl np
    by (simp add: start_def generate_def initial_snake startTimer_def clearTimer_def
        started_def Let_def)
  obtain s1 where mv: "move (started d now c s) = Inr s1"
      and sn: "snake s1 = [(11, 10), (10, 10), (9, 10)]"
    using started_move by blast
  from fair have "\<exists>k. randomCell rnd (j0 + 2 * k) \<notin> set (snake s1)"
    unfolding sn by (metis list.set_intros(1,2) set_ConsD)
  from loop_returns [OF started_fields(4) mv _ this] assms(1) show ?thesis
    unfolding st by (simp add: started_fields)
qed

text \<open>
  C8, amended. From GameOver, one start command (the space key, a tap, the start button)
  runs \<open>Game.start\<close>: the state it leaves is Running, with the difficulty retained, a
  fresh snake of three segments and the score reset (0, or 10 when the start tick already
  ate). The command returns whenever the random source keeps drawing cells off the four
  cells the fresh snake passes. Every other event leaves the state GameOver, so
  AwaitingStart is not entered from GameOver.
\<close>

theorem restart_leads_to_running:
  assumes "wellFormed s" and "status_of s = GameOver"
  shows "(startsGame ev \<and> step rnd i now ev s = Inr (s', j) \<longrightarrow>
            status_of s' = Running \<and> difficulty s' = difficulty s \<and>
            difficultyKey s' = difficultyKey s \<and>
            (score s' = 0 \<or> score s' = POINTS_PER_FOOD) \<and> length (snake s') = 3) \<and>
         (startsGame ev \<and>
          (\<forall>i'. \<exists>k. randomCell rnd (i' + 2 * k) \<notin> set [(11, 10), (10, 10), (9, 10), (8, 10)]) \<longrightarrow>
            (\<exists>s' j. step rnd i now ev s = Inr (s', j))) \<and>
         (\<not> startsGame ev \<longrightarrow>
            (\<exists>s'. step rnd i now ev s = Inr (s', i) \<and> status_of s' = GameOver))"
proof -
  have stopped: "\<not> isPlaying s" and over: "overlay s = GameOverScreen"
    using assms(2) by (auto simp: status_of_def split: if_splits)
  then obtain d where d: "difficulty s = Some d"
    using assms(1) by (auto simp: wellFormed_def)
  have timers: "\<not> gameLoopId s" "\<not> foodTimerId s"
    using assms(1) stopped by (simp_all add: wellFormed_def)
  have is_start: "step rnd i now ev s = start rnd i now s" if "startsGame ev"
    using that stopped d by (cases ev) (simp_all add: keydown_def)
  have a: "status_of s' = Running \<and> difficulty s' = difficulty s \<and>
            difficultyKey s' = difficultyKey s \<and>
            (score s' = 0 \<or> score s' = POINTS_PER_FOOD) \<and> length (snake s') = 3"
    if "startsGame ev \<and> step rnd i now ev s = Inr (s', j)"
    using that is_start start_running [OF d, of rnd i now s' j] by (simp add: status_of_def)
  have b: "\<exists>s' j. step rnd i now ev s = Inr (s', j)"
    if "startsGame ev \<and>
          (\<forall>i'. \<exists>k. randomCell rnd (i' + 2 * k) \<notin> set [(11, 10), (10, 10), (9, 10), (8, 10)])"
    using that is_start start_returns [OF d, of rnd i now] by simp
  have c: "\<exists>s'. step rnd i now ev s = Inr (s', i) \<and> status_of s' = GameOver"
    if "\<not> startsGame ev"
    using stopped_step [OF stopped timers that, of rnd i now] over
    by (auto simp: status_of_def)
  show ?thesis using a b c by blast
qed

lemma run_to_crash:
  "steps zeroSource 0 1000
     [ClickDifficulty EASY, ClickStart, LoopTimer, LoopTimer, LoopTimer, LoopTimer, LoopTimer,
      LoopTimer, LoopTimer, LoopTimer, LoopTimer] initialState = Inr (crashed, 2)"
  by (simp add: game_defs generate_loop_hit zero_cell crashed_def)

lemma restart_run: "step zeroSource 2 5000 (KeyDown (Character CHR '' '')) crashed = Inr (restarted, 4)"
  by (simp add: keydown_def start_def reset_def initialize_def generate_def clearTimer_def
      startTimer_def crashed_def restarted_def loop_def move_def checkWallCollision_def
      checkSelfCollision_def checkCollision_def generate_loop_hit zero_cell GRID_SIZE_def
      INITIAL_SNAKE_LENGTH_def upt_conv_Cons)

theorem restart_leads_to_running_witness:
  "wellFormed crashed \<and> status_of crashed = GameOver \<and> startsGame (KeyDown (Character CHR '' '')) \<and>
   step zeroSource 2 5000 (KeyDown (Character CHR '' '')) crashed = Inr (restarted, 4) \<and>
   status_of restarted = Running \<and> difficulty restarted = difficulty crashed"
proof -
  have w: "wellFormed crashed"
    by (simp add: wellFormed_def directionsOk_def crashed_def isUnit_def negation_def)
  have g: "status_of crashed = GameOver" by (simp add: status_of_def crashed_def)
  from restart_leads_to_running [OF w g, of "KeyDown (Character CHR '' '')" zeroSource 2 5000 restarted 4]
    restart_run
  have "status_of restarted = Running \<and> difficulty restarted = difficulty crashed" by simp
  then show ?thesis using w g restart_run by simp
qed

text \<open>
  C8, as stated, fails: a game on EASY that ran into the right wall is in GameOver, and
  the space key pressed there leaves it Running.
\<close>

theorem game_over_to_running_counterexample:
  "steps zeroSource 0 1000
     [ClickDifficulty EASY, ClickStart, LoopTimer, LoopTimer, LoopTimer, LoopTimer, LoopTimer,
      LoopTimer, LoopTimer, LoopTimer, LoopTimer] initialState = Inr (crashed, 2) \<and>
   status_of crashed = GameOver \<and>
   step zeroSource 2 5000 (KeyDown (Character CHR '' '')) crashed = Inr (restarted, 4) \<and>
   status_of restarted = Running"
  using run_to_crash restart_run by (simp add: status_of_def crashed_def restarted_def)

end
